theory Spec2Isabelle
  imports Complex_Main "HOL-Library.AList"
begin

section \<open>Numbers and coordinates\<close>

text \<open>
  The TypeScript sources compute on IEEE doubles.  They are modelled here by the reals:
  every arithmetic operation is exact and \<open>NaN\<close> does not exist.  The one place where
  the code needs \<open>Infinity\<close> (the initial value of \<open>bestDistSq\<close>) is modelled by
  \<open>None\<close> in a \<open>real option\<close>.  A \<open>number | null | undefined\<close> is a \<open>real option\<close>;
  a value that fails \<open>Number.isFinite\<close> is \<open>None\<close> as well.

  \<open>Coordinate = [number, number]\<close> is a pair, latitude first.
\<close>

type_synonym Coordinate = "real \<times> real"

text \<open>\<open>Math.atan2(y, x)\<close> (signed zeros are not distinguished).\<close>

definition atan2 :: "real \<Rightarrow> real \<Rightarrow> real" where
  "atan2 y x =
     (if 0 < x then arctan (y / x)
      else if x < 0 then (if 0 \<le> y then arctan (y / x) + pi else arctan (y / x) - pi)
      else if 0 < y then pi / 2
      else if y < 0 then - (pi / 2)
      else 0)"

text \<open>The remainder operator \<open>a % b\<close> of JavaScript: the result has the sign of \<open>a\<close>.\<close>

definition truncate_real :: "real \<Rightarrow> int" where
  "truncate_real x = (if 0 \<le> x then \<lfloor>x\<rfloor> else \<lceil>x\<rceil>)"

definition js_rem :: "real \<Rightarrow> real \<Rightarrow> real" where
  "js_rem a b = a - b * of_int (truncate_real (a / b))"

text \<open>\<open>clampIndex(value, max) = Math.max(0, Math.min(value, max))\<close>; the three source
  files each carry their own copy of it.\<close>

definition clampIndex :: "'a::{zero,linorder} \<Rightarrow> 'a \<Rightarrow> 'a" where
  "clampIndex val mx = max 0 (min val mx)"

section \<open>geoUtils.ts\<close>

definition toRad :: "real \<Rightarrow> real" where
  "toRad deg = (deg * pi) / 180"

definition toDeg :: "real \<Rightarrow> real" where
  "toDeg rad = (rad * 180) / pi"

definition getHaversineDistance :: "real \<Rightarrow> real \<Rightarrow> real \<Rightarrow> real \<Rightarrow> real" where
  "getHaversineDistance lat1 lon1 lat2 lon2 =
     (let R = 6371;
          dLat = toRad (lat2 - lat1);
          dLon = toRad (lon2 - lon1);
          a = (sin (dLat / 2))\<^sup>2 + cos (toRad lat1) * cos (toRad lat2) * (sin (dLon / 2))\<^sup>2;
          c = 2 * atan2 (sqrt a) (sqrt (1 - a))
      in R * c)"

definition getHaversineDistanceMeters :: "Coordinate \<Rightarrow> Coordinate \<Rightarrow> real" where
  "getHaversineDistanceMeters p1 p2 =
     getHaversineDistance (fst p1) (snd p1) (fst p2) (snd p2) * 1000"

definition calculateBearing :: "Coordinate \<Rightarrow> Coordinate \<Rightarrow> real" where
  "calculateBearing A B =
     (let lat1 = toRad (fst A);
          lat2 = toRad (fst B);
          dLon = toRad (snd B - snd A);
          y = sin dLon * cos lat2;
          x = cos lat1 * sin lat2 - sin lat1 * cos lat2 * cos dLon;
          bearing = toDeg (atan2 y x)
      in js_rem (bearing + 360) 360)"

record SnapResult =
  position :: Coordinate
  angle :: real
  segmentIndex :: int
  t :: real

record SnapOptions =
  segmentHint :: "real option"
  searchRadius :: "real option"

text \<open>
  The local variables that the scan loop of \<open>snapPointToPolyline\<close> mutates.
  \<open>bestDistSq = None\<close> is the initial \<open>Infinity\<close>.
\<close>

record SnapBest =
  bestDistSq :: "real option"
  bestPos :: Coordinate
  bestIdx :: int
  bestT :: real
  bestSegment :: "Coordinate \<times> Coordinate"

text \<open>\<open>dSq < bestDistSq\<close>, where \<open>bestDistSq\<close> may still be \<open>Infinity\<close>.\<close>

fun lessThanBest :: "real \<Rightarrow> real option \<Rightarrow> bool" where
  "lessThanBest d None = True"
| "lessThanBest d (Some b) = (d < b)"

text \<open>
  One iteration of the \<open>for\<close> loop, for segment index \<open>i\<close>.  The loop only visits
  \<open>0 \<le> i \<le> polyline.length - 2\<close>, so both reads of the polyline are in range.
\<close>

definition snapStep :: "Coordinate \<Rightarrow> Coordinate list \<Rightarrow> int \<Rightarrow> SnapBest \<Rightarrow> SnapBest" where
  "snapStep point polyline i best =
     (let A = polyline ! nat i;
          B = polyline ! nat (i + 1);
          AP_x = fst point - fst A;
          AP_y = snd point - snd A;
          AB_x = fst B - fst A;
          AB_y = snd B - snd A;
          ab2 = AB_x * AB_x + AB_y * AB_y;
          tt = (if 0 < ab2 then max 0 (min 1 ((AP_x * AB_x + AP_y * AB_y) / ab2)) else 0);
          projX = fst A + AB_x * tt;
          projY = snd A + AB_y * tt;
          dx = fst point - projX;
          dy = snd point - projY;
          dSq = dx * dx + dy * dy
      in if lessThanBest dSq (bestDistSq best)
         then \<lparr> bestDistSq = Some dSq, bestPos = (projX, projY), bestIdx = i,
                bestT = tt, bestSegment = (A, B) \<rparr>
         else best)"

text \<open>The loop \<open>for (let i = startIdx; i <= endIdx; i++)\<close>.\<close>

definition snapScan ::
  "Coordinate \<Rightarrow> Coordinate list \<Rightarrow> int \<Rightarrow> int \<Rightarrow> SnapBest \<Rightarrow> SnapBest" where
  "snapScan point polyline startIdx endIdx best =
     fold (snapStep point polyline) [startIdx..endIdx] best"

text \<open>\<open>options?.segmentHint\<close> and \<open>options?.searchRadius\<close> for an optional \<open>options\<close>.\<close>

definition optSegmentHint :: "SnapOptions option \<Rightarrow> real option" where
  "optSegmentHint options = (case options of None \<Rightarrow> None | Some opts \<Rightarrow> segmentHint opts)"

definition optSearchRadius :: "SnapOptions option \<Rightarrow> real option" where
  "optSearchRadius options = (case options of None \<Rightarrow> None | Some opts \<Rightarrow> searchRadius opts)"

text \<open>
  The bounds \<open>startIdx\<close> and \<open>endIdx\<close> of the scan window.  In the source they are
  local constants of \<open>snapPointToPolyline\<close>, computed from \<open>polyline.length\<close> and the
  options through \<open>lastSegment\<close>, \<open>hasHint\<close>, \<open>radius\<close> and \<open>clampedHint\<close>; without a
  hint the window is the whole polyline.
\<close>

definition snapStartIdx :: "nat \<Rightarrow> SnapOptions option \<Rightarrow> int" where
  "snapStartIdx len options =
     (let lastSegment = int len - 2;
          radius = max 0 \<lfloor>case optSearchRadius options of None \<Rightarrow> 0 | Some r \<Rightarrow> r\<rfloor>
      in case optSegmentHint options of
           None \<Rightarrow> 0
         | Some hint \<Rightarrow>
             clampIndex (clampIndex (round hint) lastSegment - radius) lastSegment)"

definition snapEndIdx :: "nat \<Rightarrow> SnapOptions option \<Rightarrow> int" where
  "snapEndIdx len options =
     (let lastSegment = int len - 2;
          radius = max 0 \<lfloor>case optSearchRadius options of None \<Rightarrow> 0 | Some r \<Rightarrow> r\<rfloor>
      in case optSegmentHint options of
           None \<Rightarrow> lastSegment
         | Some hint \<Rightarrow>
             clampIndex (clampIndex (round hint) lastSegment + radius) lastSegment)"

definition snapPointToPolyline ::
  "Coordinate \<Rightarrow> Coordinate list \<Rightarrow> SnapOptions option \<Rightarrow> SnapResult" where
  "snapPointToPolyline point polyline options =
     (if length polyline < 2
      then \<lparr> position = (fst point, snd point), angle = 0, segmentIndex = 0, t = 0 \<rparr>
      else
        let startIdx = snapStartIdx (length polyline) options;
            endIdx = snapEndIdx (length polyline) options;
            best = snapScan point polyline startIdx endIdx
                     \<lparr> bestDistSq = None, bestPos = (fst (polyline ! 0), snd (polyline ! 0)),
                       bestIdx = 0, bestT = 0, bestSegment = (polyline ! 0, polyline ! 0) \<rparr>
        in \<lparr> position = bestPos best,
             angle = calculateBearing (fst (bestSegment best)) (snd (bestSegment best)),
             segmentIndex = bestIdx best,
             t = bestT best \<rparr>)"


text \<open>
  For the statements about the scan: what iteration \<open>i\<close> of the loop computes (the
  clamped parameter, the projected point, the squared distance), the values it assigns
  when it improves on the best so far, and the result built from them.
\<close>

definition segT :: "Coordinate \<Rightarrow> Coordinate list \<Rightarrow> int \<Rightarrow> real" where
  "segT point polyline i =
     (let A = polyline ! nat i;
          B = polyline ! nat (i + 1);
          AB_x = fst B - fst A;
          AB_y = snd B - snd A;
          ab2 = AB_x * AB_x + AB_y * AB_y
      in if 0 < ab2
         then max 0 (min 1 (((fst point - fst A) * AB_x + (snd point - snd A) * AB_y) / ab2))
         else 0)"

definition segProj :: "Coordinate \<Rightarrow> Coordinate list \<Rightarrow> int \<Rightarrow> Coordinate" where
  "segProj point polyline i =
     (let A = polyline ! nat i;
          B = polyline ! nat (i + 1)
      in (fst A + (fst B - fst A) * segT point polyline i,
          snd A + (snd B - snd A) * segT point polyline i))"

definition segDSq :: "Coordinate \<Rightarrow> Coordinate list \<Rightarrow> int \<Rightarrow> real" where
  "segDSq point polyline i =
     (let dx = fst point - fst (segProj point polyline i);
          dy = snd point - snd (segProj point polyline i)
      in dx * dx + dy * dy)"

definition segBest :: "Coordinate \<Rightarrow> Coordinate list \<Rightarrow> int \<Rightarrow> SnapBest" where
  "segBest point polyline i =
     \<lparr> bestDistSq = Some (segDSq point polyline i), bestPos = segProj point polyline i,
       bestIdx = i, bestT = segT point polyline i,
       bestSegment = (polyline ! nat i, polyline ! nat (i + 1)) \<rparr>"

definition snapResultAt :: "Coordinate \<Rightarrow> Coordinate list \<Rightarrow> int \<Rightarrow> SnapResult" where
  "snapResultAt point polyline i =
     \<lparr> position = segProj point polyline i,
       angle = calculateBearing (polyline ! nat i) (polyline ! nat (i + 1)),
       segmentIndex = i,
       t = segT point polyline i \<rparr>"

section \<open>polyUtils.ts\<close>

text \<open>
  \<open>snapToPolyline\<close> repeats \<open>snapPointToPolyline\<close>: the window computation and the
  loop body are the same line by line, so the model reuses \<open>snapStartIdx\<close>,
  \<open>snapEndIdx\<close> and \<open>snapScan\<close>.  It starts from \<open>polyline[0]\<close> itself and its
  degenerate result carries \<open>P\<close> itself.
\<close>

definition snapToPolyline ::
  "Coordinate \<Rightarrow> Coordinate list \<Rightarrow> SnapOptions option \<Rightarrow> SnapResult" where
  "snapToPolyline P polyline options =
     (if length polyline < 2
      then \<lparr> position = P, angle = 0, segmentIndex = 0, t = 0 \<rparr>
      else
        let startIdx = snapStartIdx (length polyline) options;
            endIdx = snapEndIdx (length polyline) options;
            best = snapScan P polyline startIdx endIdx
                     \<lparr> bestDistSq = None, bestPos = polyline ! 0,
                       bestIdx = 0, bestT = 0, bestSegment = (polyline ! 0, polyline ! 0) \<rparr>
        in \<lparr> position = bestPos best,
             angle = calculateBearing (fst (bestSegment best)) (snd (bestSegment best)),
             segmentIndex = bestIdx best,
             t = bestT best \<rparr>)"

record SplitResult =
  upPolyline :: "Coordinate list list"
  downPolyline :: "Coordinate list list"

text \<open>
  \<open>coords.slice(0, idx + 1)\<close> and \<open>coords.slice(idx)\<close> for \<open>idx \<ge> 0\<close> are \<open>take\<close> and
  \<open>drop\<close>.
\<close>

definition splitByTurnIndex :: "Coordinate list \<Rightarrow> real \<Rightarrow> SplitResult" where
  "splitByTurnIndex coords turnIndex =
     (if length coords < 2 then \<lparr> upPolyline = [], downPolyline = [] \<rparr>
      else
        let idx = clampIndex (round turnIndex) (int (length coords) - 1);
            upCoords = take (nat (idx + 1)) coords;
            downCoords = drop (nat idx) coords
        in \<lparr> upPolyline = (if length upCoords > 1 then [upCoords] else []),
             downPolyline = (if length downCoords > 1 then [downCoords] else []) \<rparr>)"

section \<open>polylineDirection.ts\<close>

definition MAX_SAMPLE_STOPS :: nat where
  "MAX_SAMPLE_STOPS = 20"

definition SWAP_RATIO_SQ :: real where
  "SWAP_RATIO_SQ = 81 / 100"

record SequenceItem =
  nodeord :: real
  nodeid :: string
  updowncd :: int

record RouteDetail =
  sequence :: "SequenceItem list"

text \<open>
  The declaration of \<open>StationLocation\<close> is not among the sources; the code reads its
  fields \<open>gpslati\<close> and \<open>gpslong\<close>.
\<close>

record StationLocation =
  gpslati :: real
  gpslong :: real

definition getSquaredDistanceToPolyline :: "Coordinate \<Rightarrow> Coordinate list \<Rightarrow> real" where
  "getSquaredDistanceToPolyline point polyline =
     (let snapped = snapToPolyline point polyline None;
          dLat = fst point - fst (SnapResult.position snapped);
          dLng = snd point - snd (SnapResult.position snapped)
      in dLat * dLat + dLng * dLng)"

text \<open>
  The sampling loop \<open>for (let i = 0; i < coords.length; i += step)\<close> with its
  \<open>break\<close> once \<open>MAX_SAMPLE_STOPS\<close> samples have been pushed.
\<close>

function sampleLoop ::
  "Coordinate list \<Rightarrow> nat \<Rightarrow> nat \<Rightarrow> Coordinate list \<Rightarrow> Coordinate list" where
  "sampleLoop coords step i sampled =
     (if i < length coords
      then (if MAX_SAMPLE_STOPS \<le> length (sampled @ [coords ! i])
            then sampled @ [coords ! i]
            else sampleLoop coords step (i + step) (sampled @ [coords ! i]))
      else sampled)"
  by pat_completeness auto
termination
  by (relation "measure (\<lambda>(coords, step, i, sampled). MAX_SAMPLE_STOPS - length sampled)")
     auto

definition sampleCoordinates :: "Coordinate list \<Rightarrow> Coordinate list" where
  "sampleCoordinates coords =
     (if length coords \<le> MAX_SAMPLE_STOPS then coords
      else
        let step = nat \<lceil>real (length coords) / real MAX_SAMPLE_STOPS\<rceil>
        in sampleLoop coords step 0 [])"

definition calculateMeanSquaredError ::
  "Coordinate list \<Rightarrow> Coordinate list \<Rightarrow> real option" where
  "calculateMeanSquaredError points polyline =
     (if length points = 0 \<or> length polyline < 2 then None
      else
        let totalDistSq =
              fold (\<lambda>point total. total + getSquaredDistanceToPolyline point polyline) points 0
        in Some (totalDistSq / real (length points)))"

text \<open>
  The loop over \<open>routeDetail.sequence\<close> that fills \<open>upStops\<close> and \<open>downStops\<close>; the
  state is the pair of the two arrays.  In \<open>shouldSwapPolylines\<close> the parameters
  \<open>upPolyline\<close> and \<open>downPolyline\<close> are written \<open>upLine\<close> and \<open>downLine\<close>, the
  former being field names of \<open>SplitResult\<close>.
\<close>

definition collectStop ::
  "(string \<rightharpoonup> StationLocation) \<Rightarrow> SequenceItem \<Rightarrow>
   Coordinate list \<times> Coordinate list \<Rightarrow> Coordinate list \<times> Coordinate list" where
  "collectStop stationMap stop acc =
     (case stationMap (SequenceItem.nodeid stop) of
        None \<Rightarrow> acc
      | Some station \<Rightarrow>
          let coord = (gpslati station, gpslong station)
          in if updowncd stop = 1 then (fst acc @ [coord], snd acc)
             else if updowncd stop = 0 then (fst acc, snd acc @ [coord])
             else acc)"

definition shouldSwapPolylines ::
  "RouteDetail option \<Rightarrow> (string \<rightharpoonup> StationLocation) option \<Rightarrow>
   Coordinate list \<Rightarrow> Coordinate list \<Rightarrow> bool" where
  "shouldSwapPolylines routeDetail stationMap upLine downLine =
     (case (routeDetail, stationMap) of
        (Some detail, Some stations) \<Rightarrow>
          if length upLine < 2 \<or> length downLine < 2 then False
          else
            let stops = fold (collectStop stations) (sequence detail) ([], []);
                upStops = fst stops;
                downStops = snd stops
            in if length upStops = 0 \<or> length downStops = 0 then False
               else
                 let upSample = sampleCoordinates upStops;
                     downSample = sampleCoordinates downStops
                 in (case (calculateMeanSquaredError upSample upLine,
                           calculateMeanSquaredError upSample downLine,
                           calculateMeanSquaredError downSample upLine,
                           calculateMeanSquaredError downSample downLine) of
                       (Some mseUpToUp, Some mseUpToDown, Some mseDownToUp, Some mseDownToDown) \<Rightarrow>
                         let upStopsMatchDownPoly = (mseUpToDown < mseUpToUp * SWAP_RATIO_SQ);
                             downStopsMatchUpPoly = (mseDownToUp < mseDownToDown * SWAP_RATIO_SQ)
                         in upStopsMatchDownPoly \<and> downStopsMatchUpPoly
                     | _ \<Rightarrow> False)
      | _ \<Rightarrow> False)"


section \<open>getSnappedPos.ts\<close>

definition MAX_SNAP_DISTANCE_METERS :: real where
  "MAX_SNAP_DISTANCE_METERS = 50"

definition DEFAULT_SNAP_INDEX_RANGE :: real where
  "DEFAULT_SNAP_INDEX_RANGE = 80"

record SnappedResult =
  position :: Coordinate
  angle :: real
  direction :: int
  segmentIndex :: "int option"

record SnapCandidate = SnappedResult +
  distance :: real
  isValid :: bool

text \<open>
  \<open>StopIndexMap\<close> holds four \<open>Record<string, number>\<close> tables.  Their keys are the
  template strings \<open>`${id}-${direction}`\<close>, \<open>String(ord)\<close> and \<open>`${ord}-${direction}`\<close>; the
  model keeps the components of a key instead of its text.  An entry that fails
  \<open>isFiniteNumber\<close> counts as absent.
\<close>

record StopIndexMap =
  byId :: "string \<rightharpoonup> real"
  byIdDir :: "string \<times> int \<rightharpoonup> real"
  byOrd :: "real \<rightharpoonup> real"
  byOrdDir :: "real \<times> int \<rightharpoonup> real"

record GetSnappedOptions =
  stopIndexMap :: "StopIndexMap option"
  turnIndex :: "real option"
  isSwapped :: bool
  snapIndexRange :: "real option"

text \<open>
  The declaration of \<open>BusItem\<close> is not among the sources; these are the fields that
  \<open>getSnappedPosition\<close> reads.  \<open>nodeord\<close> holds \<open>Number(bus.nodeord)\<close>, with \<open>None\<close> when
  that is not a finite number.
\<close>

record BusItem =
  gpslati :: real
  gpslong :: real
  nodeid :: "string option"
  nodeord :: "real option"
  routeid :: "string option"

text \<open>\<open>String.prototype.trim\<close> on the ASCII white space characters.\<close>

definition isWhiteSpace :: "char \<Rightarrow> bool" where
  "isWhiteSpace c = (c \<in> {CHR '' '', CHR 0x09, CHR 0x0A, CHR 0x0B, CHR 0x0C, CHR 0x0D})"

definition trim :: "string \<Rightarrow> string" where
  "trim s = rev (dropWhile isWhiteSpace (rev (dropWhile isWhiteSpace s)))"

text \<open>\<open>a ?? b\<close> on optional values.\<close>

definition orElse :: "'a option \<Rightarrow> 'a option \<Rightarrow> 'a option" where
  "orElse a b = (case a of Some v \<Rightarrow> Some v | None \<Rightarrow> b)"

definition getStopCoordIndex ::
  "StopIndexMap option \<Rightarrow> string option \<Rightarrow> real option \<Rightarrow> int option \<Rightarrow> real option" where
  "getStopCoordIndex stopMap nid ord dir =
     (case stopMap of
        None \<Rightarrow> None
      | Some m \<Rightarrow>
          let cleanedId = (case nid of Some s \<Rightarrow> trim s | None \<Rightarrow> [])
          in orElse
               (case dir of
                  None \<Rightarrow> None
                | Some d \<Rightarrow>
                    orElse (if cleanedId \<noteq> [] then byIdDir m (cleanedId, d) else None)
                           (case ord of Some ordv \<Rightarrow> byOrdDir m (ordv, d) | None \<Rightarrow> None))
               (orElse (if cleanedId \<noteq> [] then byId m cleanedId else None)
                       (case ord of Some ordv \<Rightarrow> byOrd m ordv | None \<Rightarrow> None)))"

definition getSegmentHint ::
  "real option \<Rightarrow> int \<Rightarrow> nat \<Rightarrow> real option \<Rightarrow> bool \<Rightarrow> real option" where
  "getSegmentHint coordIndex dir lineLength turnIdx swapped =
     (case coordIndex of
        None \<Rightarrow> None
      | Some ci \<Rightarrow>
          if lineLength < 2 then None
          else
            let lastSegment = real lineLength - 2;
                effectiveDirection = (if swapped then (if dir = 1 then 0 else 1) else dir)
            in (case turnIdx of
                  None \<Rightarrow> Some (clampIndex (ci - 1) lastSegment)
                | Some ti \<Rightarrow>
                    let safeTurnIndex = real_of_int (round ti)
                    in if effectiveDirection = 1
                       then (if ci > safeTurnIndex then None
                             else Some (clampIndex (ci - 1) lastSegment))
                       else if ci < safeTurnIndex then None
                       else
                         let localIndex = ci - safeTurnIndex
                         in Some (clampIndex (localIndex - 1) lastSegment)))"

text \<open>
  The closure \<open>createCandidate\<close> of \<open>getSnappedPosition\<close>, with the variables it
  captures as leading arguments.
\<close>

definition createCandidate ::
  "Coordinate \<Rightarrow> real option \<Rightarrow> real option \<Rightarrow> real option \<Rightarrow> real option \<Rightarrow> bool \<Rightarrow> real \<Rightarrow>
   Coordinate list \<Rightarrow> int \<Rightarrow> SnapCandidate option" where
  "createCandidate rawPosition stopIndexUp stopIndexDown stopIndexAny turnIdx swapped indexRange
     line dir =
     (if length line < 2 then None
      else
        let coordIndex = (if dir = 1 then orElse stopIndexUp stopIndexAny
                          else orElse stopIndexDown stopIndexAny);
            hint = getSegmentHint coordIndex dir (length line) turnIdx swapped;
            snapped = snapPointToPolyline rawPosition line
                        (Some \<lparr> segmentHint = hint, searchRadius = Some indexRange \<rparr>);
            dist = getHaversineDistanceMeters rawPosition (SnapResult.position snapped)
        in Some \<lparr> position = SnapResult.position snapped,
                  angle = SnapResult.angle snapped,
                  direction = dir,
                  segmentIndex = Some (SnapResult.segmentIndex snapped),
                  distance = dist,
                  isValid = (dist \<le> MAX_SNAP_DISTANCE_METERS) \<rparr>)"

text \<open>\<open>candidate?.isValid\<close> for a candidate that may be \<open>null\<close>.\<close>

definition candidateValid :: "SnapCandidate option \<Rightarrow> bool" where
  "candidateValid c = (case c of None \<Rightarrow> False | Some cand \<Rightarrow> isValid cand)"

text \<open>
  A returned candidate is seen through the declared result type \<open>SnappedResult\<close>.
\<close>

definition asResult :: "SnapCandidate \<Rightarrow> SnappedResult" where
  "asResult c = \<lparr> position = SnappedResult.position c, angle = SnappedResult.angle c,
                  direction = direction c, segmentIndex = SnappedResult.segmentIndex c \<rparr>"

definition getSnappedPosition ::
  "BusItem \<Rightarrow> (string option \<Rightarrow> real option \<Rightarrow> string option \<Rightarrow> int option) \<Rightarrow>
   Coordinate list \<Rightarrow> Coordinate list \<Rightarrow> GetSnappedOptions option \<Rightarrow> SnappedResult" where
  "getSnappedPosition bus getDir upLine downLine options =
     (let rawPosition = (BusItem.gpslati bus, BusItem.gpslong bus);
          stopMap = (case options of None \<Rightarrow> None | Some opts \<Rightarrow> stopIndexMap opts);
          turnIdx = (case options of None \<Rightarrow> None | Some opts \<Rightarrow> turnIndex opts);
          swapped = (case options of None \<Rightarrow> False | Some opts \<Rightarrow> isSwapped opts);
          indexRange = (case options of
                     None \<Rightarrow> DEFAULT_SNAP_INDEX_RANGE
                   | Some opts \<Rightarrow>
                       (case snapIndexRange opts of
                          None \<Rightarrow> DEFAULT_SNAP_INDEX_RANGE
                        | Some r \<Rightarrow> r));
          apiDirection = getDir (BusItem.nodeid bus) (BusItem.nodeord bus) (routeid bus);
          defaultResult = \<lparr> position = rawPosition, angle = 0,
                            direction = (case apiDirection of Some d \<Rightarrow> d | None \<Rightarrow> 0),
                            segmentIndex = None \<rparr>;
          stopIndexUp = getStopCoordIndex stopMap (BusItem.nodeid bus) (BusItem.nodeord bus) (Some 1);
          stopIndexDown = getStopCoordIndex stopMap (BusItem.nodeid bus) (BusItem.nodeord bus) (Some 0);
          stopIndexAny = getStopCoordIndex stopMap (BusItem.nodeid bus) (BusItem.nodeord bus) None;
          candidateUp = createCandidate rawPosition stopIndexUp stopIndexDown stopIndexAny
                          turnIdx swapped indexRange upLine 1;
          candidateDown = createCandidate rawPosition stopIndexUp stopIndexDown stopIndexAny
                            turnIdx swapped indexRange downLine 0
      in case (candidateUp, candidateDown) of (cu, cd) \<Rightarrow>
         if apiDirection = Some 1 \<and> candidateValid cu then
           (case cu of Some c \<Rightarrow> asResult c | None \<Rightarrow> defaultResult)
         else if apiDirection = Some 0 \<and> candidateValid cd then
           (case cd of Some c \<Rightarrow> asResult c | None \<Rightarrow> defaultResult)
         else if candidateValid cu \<and> candidateValid cd then
           (case (cu, cd) of
              (Some u, Some d) \<Rightarrow> (if distance u < distance d then asResult u else asResult d)
            | _ \<Rightarrow> defaultResult)
         else if candidateValid cu then
           (case cu of Some c \<Rightarrow> asResult c | None \<Rightarrow> defaultResult)
         else if candidateValid cd then
           (case cd of Some c \<Rightarrow> asResult c | None \<Rightarrow> defaultResult)
         else defaultResult)"


text \<open>
  For the statements about \<open>getSnappedPosition\<close>: the candidate that it builds for a line
  and a direction, that is \<open>createCandidate(line, dir)\<close> with the variables captured from
  the bus and the options.
\<close>

definition snapCandidate ::
  "BusItem \<Rightarrow> GetSnappedOptions option \<Rightarrow> Coordinate list \<Rightarrow> int \<Rightarrow> SnapCandidate option" where
  "snapCandidate bus options line dir =
     (let rawPosition = (BusItem.gpslati bus, BusItem.gpslong bus);
          stopMap = (case options of None \<Rightarrow> None | Some opts \<Rightarrow> stopIndexMap opts);
          turnIdx = (case options of None \<Rightarrow> None | Some opts \<Rightarrow> turnIndex opts);
          swapped = (case options of None \<Rightarrow> False | Some opts \<Rightarrow> isSwapped opts);
          indexRange = (case options of
                     None \<Rightarrow> DEFAULT_SNAP_INDEX_RANGE
                   | Some opts \<Rightarrow>
                       (case snapIndexRange opts of
                          None \<Rightarrow> DEFAULT_SNAP_INDEX_RANGE
                        | Some r \<Rightarrow> r));
          stopIndexUp = getStopCoordIndex stopMap (BusItem.nodeid bus) (BusItem.nodeord bus) (Some 1);
          stopIndexDown = getStopCoordIndex stopMap (BusItem.nodeid bus) (BusItem.nodeord bus) (Some 0);
          stopIndexAny = getStopCoordIndex stopMap (BusItem.nodeid bus) (BusItem.nodeord bus) None
      in createCandidate rawPosition stopIndexUp stopIndexDown stopIndexAny
           turnIdx swapped indexRange line dir)"

text \<open>A bus that reports the fix \<open>(lat, lng)\<close> and no stop, order or route.\<close>

definition busAt :: "real \<Rightarrow> real \<Rightarrow> BusItem" where
  "busAt lat lng = \<lparr> BusItem.gpslati = lat, BusItem.gpslong = lng, BusItem.nodeid = None,
                      BusItem.nodeord = None, BusItem.routeid = None \<rparr>"

section \<open>useBusLocation.ts: the direction resolver\<close>

text \<open>\<open>Direction.UP\<close> and \<open>Direction.DOWN\<close>.\<close>

definition UP :: int where
  "UP = 1"

definition DOWN :: int where
  "DOWN = 0"

record RouteSequenceData =
  routeid :: string
  sequence :: "SequenceItem list"

record LoadedRouteState =
  sequences :: "RouteSequenceData list"
  routeIdOrder :: "string list"

text \<open>The entries stored in \<open>sequenceLookupMap\<close>.\<close>

record SequenceCandidate =
  routeid :: string
  nodeord :: real
  updowncd :: int

text \<open>
  The React state of \<open>useBusDirection\<close> that the closure \<open>getDirection\<close> captures.
  \<open>alwaysUpward\<close> is the set \<open>ALWAYS_UPWARD_NODEIDS\<close>, read from the environment.
\<close>

record BusDirectionState =
  isReady :: bool
  routeState :: LoadedRouteState
  alwaysUpward :: "string set"

definition sequenceLookupMap :: "BusDirectionState \<Rightarrow> (string \<rightharpoonup> SequenceCandidate list)" where
  "sequenceLookupMap st =
     (if \<not> isReady st then Map.empty
      else
        fold (\<lambda>rs m.
                fold (\<lambda>item m'.
                        let lst = (case m' (SequenceItem.nodeid item) of
                                     None \<Rightarrow> [] | Some l \<Rightarrow> l)
                        in m'(SequenceItem.nodeid item \<mapsto>
                              lst @ [\<lparr> routeid = RouteSequenceData.routeid rs,
                                       nodeord = SequenceItem.nodeord item,
                                       updowncd = SequenceItem.updowncd item \<rparr>]))
                     (RouteSequenceData.sequence rs) m)
             (sequences (routeState st)) Map.empty)"

definition routeMixedDirMap :: "BusDirectionState \<Rightarrow> (string \<rightharpoonup> bool)" where
  "routeMixedDirMap st =
     fold (\<lambda>rs m.
             let directions = set (map SequenceItem.updowncd (RouteSequenceData.sequence rs))
             in m(RouteSequenceData.routeid rs \<mapsto> (card directions > 1)))
          (sequences (routeState st)) Map.empty"

definition fallbackDirMap :: "BusDirectionState \<Rightarrow> (string \<rightharpoonup> int)" where
  "fallbackDirMap st =
     (if length (routeIdOrder (routeState st)) = 2
      then (Map.empty(routeIdOrder (routeState st) ! 0 \<mapsto> UP))
             (routeIdOrder (routeState st) ! 1 \<mapsto> DOWN)
      else Map.empty)"

definition activeRouteIds :: "BusDirectionState \<Rightarrow> string set" where
  "activeRouteIds st = set (map RouteSequenceData.routeid (sequences (routeState st)))"

text \<open>The callback of \<open>pool.reduce\<close>: the better of \<open>best\<close> and \<open>curr\<close> (written \<open>cur\<close>).\<close>

definition closerCandidate ::
  "real \<Rightarrow> SequenceCandidate \<Rightarrow> SequenceCandidate \<Rightarrow> SequenceCandidate" where
  "closerCandidate targetOrd best cur =
     (let bestDiff = \<bar>nodeord best - targetOrd\<bar>;
          currDiff = \<bar>nodeord cur - targetOrd\<bar>
      in if currDiff < bestDiff then cur
         else if currDiff = bestDiff \<and> nodeord cur < nodeord best then cur
         else best)"

text \<open>
  \<open>exactMatch || pool.reduce(..., pool[0])\<close>.  On an empty pool \<open>pool[0]\<close> is
  \<open>undefined\<close> and so is the result, here \<open>None\<close>.
\<close>

definition bestMatch :: "SequenceCandidate list \<Rightarrow> real \<Rightarrow> SequenceCandidate option" where
  "bestMatch pool targetOrd =
     (case find (\<lambda>c. nodeord c = targetOrd) pool of
        Some exactMatch \<Rightarrow> Some exactMatch
      | None \<Rightarrow>
          (case pool of
             [] \<Rightarrow> None
           | first # _ \<Rightarrow>
               Some (fold (\<lambda>cur best. closerCandidate targetOrd best cur) pool first)))"

definition getDirection ::
  "BusDirectionState \<Rightarrow> string option \<Rightarrow> real option \<Rightarrow> string option \<Rightarrow> int option" where
  "getDirection st nid ord rid =
     (if \<not> isReady st then None
      else case nid of
        None \<Rightarrow> None
      | Some rawId \<Rightarrow>
          if rawId = [] then None
          else if trim rawId = [] then None
          else (case ord of
             None \<Rightarrow> None
           | Some targetOrd \<Rightarrow>
               if trim rawId \<in> alwaysUpward st then Some UP
               else (case sequenceLookupMap st (trim rawId) of
                  None \<Rightarrow> None
                | Some candidates \<Rightarrow>
                    if length candidates = 0 then None
                    else
                      let scopedCandidates =
                            (if rid \<noteq> None \<and> rid \<noteq> Some []
                             then filter (\<lambda>c. Some (routeid c) = rid) candidates
                             else filter (\<lambda>c. routeid c \<in> activeRouteIds st) candidates);
                          pool = (if length scopedCandidates > 0 then scopedCandidates
                                  else candidates)
                      in (case bestMatch pool targetOrd of
                            None \<Rightarrow> None
                          | Some best \<Rightarrow>
                              let isMixed = (case routeMixedDirMap st (routeid best) of
                                               Some b \<Rightarrow> b | None \<Rightarrow> False)
                              in (case fallbackDirMap st (routeid best) of
                                    Some fallback \<Rightarrow>
                                      if \<not> isMixed then Some fallback
                                      else Some (if updowncd best = 0 then DOWN else UP)
                                  | None \<Rightarrow>
                                      Some (if updowncd best = 0 then DOWN else UP))))))"

section \<open>The cache manager\<close>

text \<open>
  The three \<open>Map\<close>s of \<open>CacheManager\<close> are association lists in insertion order
  (\<open>Map.set\<close> keeps the place of a key it already holds, which is \<open>AList.update\<close>).
  A \<open>Promise<T>\<close> held in \<open>pendingRequests\<close> is represented by its identity, a number.
  \<open>Date.now()\<close> is an argument \<open>now\<close> of every operation that reads the clock.
\<close>

record 'v CacheManager =
  cache :: "(string \<times> 'v) list"
  pendingRequests :: "(string \<times> nat) list"
  accessTimes :: "(string \<times> int) list"
  maxSize :: int

text \<open>
  What a promise can be rejected with: the \<open>TypeError\<close> that \<open>Array.prototype.reduce\<close>
  throws on an empty array without initial value, or the reason the producer gave.
\<close>

datatype 'e failure = ReduceOfEmptyArray | ProducerFailure 'e

definition newCacheManager :: "int \<Rightarrow> 'v CacheManager" where
  "newCacheManager n = \<lparr> cache = [], pendingRequests = [], accessTimes = [], maxSize = n \<rparr>"

definition has :: "'v CacheManager \<Rightarrow> string \<Rightarrow> bool" where
  "has cm key = (map_of (cache cm) key \<noteq> None)"

definition evictLRU :: "'v CacheManager \<Rightarrow> 'e failure + 'v CacheManager" where
  "evictLRU cm =
     (case accessTimes cm of
        [] \<Rightarrow> Inl ReduceOfEmptyArray
      | entry # entries \<Rightarrow>
          let oldestKey =
                fst (fold (\<lambda>curr oldest. if snd curr < snd oldest then curr else oldest)
                          entries entry)
          in Inr (cm\<lparr> cache := AList.delete oldestKey (cache cm),
                       accessTimes := AList.delete oldestKey (accessTimes cm),
                       pendingRequests := AList.delete oldestKey (pendingRequests cm) \<rparr>))"

definition cacheSet ::
  "'v CacheManager \<Rightarrow> string \<Rightarrow> 'v \<Rightarrow> int \<Rightarrow> 'e failure + 'v CacheManager" where
  "cacheSet cm key val now =
     (case (if int (length (cache cm)) \<ge> maxSize cm \<and> \<not> has cm key
            then evictLRU cm else Inr cm) of
        Inl err \<Rightarrow> Inl err
      | Inr cm' \<Rightarrow>
          Inr (cm'\<lparr> cache := AList.update key val (cache cm'),
                     accessTimes := AList.update key now (accessTimes cm') \<rparr>))"

definition cacheGet :: "'v CacheManager \<Rightarrow> string \<Rightarrow> int \<Rightarrow> 'v option \<times> 'v CacheManager" where
  "cacheGet cm key now =
     (case map_of (cache cm) key of
        None \<Rightarrow> (None, cm)
      | Some v \<Rightarrow> (Some v, cm\<lparr> accessTimes := AList.update key now (accessTimes cm) \<rparr>))"

definition cacheDelete :: "'v CacheManager \<Rightarrow> string \<Rightarrow> 'v CacheManager" where
  "cacheDelete cm key =
     cm\<lparr> cache := AList.delete key (cache cm),
         accessTimes := AList.delete key (accessTimes cm),
         pendingRequests := AList.delete key (pendingRequests cm) \<rparr>"

definition cacheClear :: "'v CacheManager \<Rightarrow> 'v CacheManager" where
  "cacheClear cm = cm\<lparr> cache := [], accessTimes := [], pendingRequests := [] \<rparr>"

definition clearExcept :: "'v CacheManager \<Rightarrow> string list \<Rightarrow> 'v CacheManager" where
  "clearExcept cm keysToKeep =
     cm\<lparr> cache := filter (\<lambda>e. fst e \<in> set keysToKeep) (cache cm),
         accessTimes :=
           filter (\<lambda>e. fst e \<in> set keysToKeep \<or> fst e \<notin> fst ` set (cache cm)) (accessTimes cm),
         pendingRequests := filter (\<lambda>e. fst e \<in> set keysToKeep) (pendingRequests cm) \<rparr>"

text \<open>
  \<open>getOrFetch\<close> is asynchronous.  The runtime around the cache manager holds every
  promise that \<open>getOrFetch\<close> has created, \<open>fetchFn().then(...).finally(...)\<close>, with the
  key that its two handlers have captured and with its state; the identity of a promise is
  its index in \<open>promises\<close>.  \<open>invoked\<close> logs the producers that have been called.
  Producers are asynchronous functions: they return a promise and do not throw.
\<close>

datatype ('v, 'e) promiseState = Pending | Fulfilled 'v | Rejected "'e failure"

record ('v, 'e, 'p) Runtime =
  manager :: "'v CacheManager"
  promises :: "(string \<times> ('v, 'e) promiseState) list"
  invoked :: "'p list"

definition newRuntime :: "int \<Rightarrow> ('v, 'e, 'p) Runtime" where
  "newRuntime n = \<lparr> manager = newCacheManager n, promises = [], invoked = [] \<rparr>"

text \<open>
  What the promise returned by the \<open>async\<close> method \<open>getOrFetch\<close> is bound to: a value
  that was cached, or the outcome of the promise with the given identity.
\<close>

datatype 'v fetchResult = Cached 'v | Awaiting nat

definition getOrFetch ::
  "('v, 'e, 'p) Runtime \<Rightarrow> string \<Rightarrow> 'p \<Rightarrow> int \<Rightarrow> 'v fetchResult \<times> ('v, 'e, 'p) Runtime" where
  "getOrFetch rt key fetchFn now =
     (case map_of (cache (manager rt)) key of
        Some v \<Rightarrow>
          (Cached v,
           rt\<lparr> manager := (manager rt)
                  \<lparr> accessTimes := AList.update key now (accessTimes (manager rt)) \<rparr> \<rparr>)
      | None \<Rightarrow>
          (case map_of (pendingRequests (manager rt)) key of
             Some p \<Rightarrow> (Awaiting p, rt)
           | None \<Rightarrow>
               let p = length (promises rt)
               in (Awaiting p,
                   rt\<lparr> invoked := invoked rt @ [fetchFn],
                       promises := promises rt @ [(key, Pending)],
                       manager := (manager rt)
                          \<lparr> pendingRequests :=
                              AList.update key p (pendingRequests (manager rt)) \<rparr> \<rparr>)))"

text \<open>
  The producer's promise behind promise \<open>p\<close> settles at time \<open>now\<close>: with \<open>Inr data\<close> the
  \<open>then\<close> handler runs \<open>this.set(key, data)\<close>, with \<open>Inl reason\<close> it is skipped; the
  \<open>finally\<close> handler then removes the pending entry of the key in both cases.  A promise
  settles once.
\<close>

definition settle ::
  "('v, 'e, 'p) Runtime \<Rightarrow> nat \<Rightarrow> 'e + 'v \<Rightarrow> int \<Rightarrow> ('v, 'e, 'p) Runtime" where
  "settle rt p outcome now =
     (if p < length (promises rt) \<and> snd (promises rt ! p) = Pending
      then
        let key = fst (promises rt ! p);
            afterThen =
              (case outcome of
                 Inl reason \<Rightarrow> (manager rt, Rejected (ProducerFailure reason))
               | Inr data \<Rightarrow>
                   (case cacheSet (manager rt) key data now of
                      Inl err \<Rightarrow> (manager rt, Rejected err)
                    | Inr cm \<Rightarrow> (cm, Fulfilled data)));
            afterFinally =
              (fst afterThen)
                \<lparr> pendingRequests := AList.delete key (pendingRequests (fst afterThen)) \<rparr>
        in rt\<lparr> manager := afterFinally,
               promises := (promises rt)[p := (key, snd afterThen)] \<rparr>
      else rt)"

text \<open>A run of the runtime: calls of \<open>getOrFetch\<close> and settlements, in any order.\<close>

datatype ('v, 'e, 'p) event =
    CallGetOrFetch string 'p int
  | Settle nat "'e + 'v" int

fun step :: "('v, 'e, 'p) Runtime \<Rightarrow> ('v, 'e, 'p) event \<Rightarrow> ('v, 'e, 'p) Runtime" where
  "step rt (CallGetOrFetch key fetchFn now) = snd (getOrFetch rt key fetchFn now)"
| "step rt (Settle p outcome now) = settle rt p outcome now"

definition run :: "('v, 'e, 'p) Runtime \<Rightarrow> ('v, 'e, 'p) event list \<Rightarrow> ('v, 'e, 'p) Runtime" where
  "run rt evs = fold (\<lambda>ev r. step r ev) evs rt"

text \<open>
  For the statement about \<open>bestMatch\<close>: \<open>b\<close> is at least as good a match for the order
  \<open>tgt\<close> as \<open>c\<close>, by distance first and by the smaller order second.
\<close>

definition betterOrEqual :: "real \<Rightarrow> SequenceCandidate \<Rightarrow> SequenceCandidate \<Rightarrow> bool" where
  "betterOrEqual tgt b c =
     (\<bar>nodeord b - tgt\<bar> < \<bar>nodeord c - tgt\<bar> \<or>
      (\<bar>nodeord b - tgt\<bar> = \<bar>nodeord c - tgt\<bar> \<and> nodeord b \<le> nodeord c))"

text \<open>
  For the statements about \<open>getOrFetch\<close>: the invariant of every runtime reached from a
  new cache manager by calls of \<open>getOrFetch\<close> and settlements.  The
  access times and the cache hold the same keys; a pending entry names a promise that is
  still pending, carries the same key, and whose key is not cached; and every promise that
  is still pending is the pending entry of its key.
\<close>

definition wellFormed :: "('v, 'e, 'p) Runtime \<Rightarrow> bool" where
  "wellFormed rt \<longleftrightarrow>
     dom (map_of (accessTimes (manager rt))) = dom (map_of (cache (manager rt))) \<and>
     (\<forall>key p. map_of (pendingRequests (manager rt)) key = Some p \<longrightarrow>
        p < length (promises rt) \<and> promises rt ! p = (key, Pending) \<and>
        map_of (cache (manager rt)) key = None) \<and>
     (\<forall>p key. p < length (promises rt) \<and> promises rt ! p = (key, Pending) \<longrightarrow>
        map_of (pendingRequests (manager rt)) key = Some p)"

section \<open>Properties of the polyline scan\<close>

lemma snapStep_segBest:
  "snapStep point polyline i best =
     (if lessThanBest (segDSq point polyline i) (bestDistSq best)
      then segBest point polyline i else best)"
  by (simp add: snapStep_def segBest_def segDSq_def segProj_def segT_def Let_def)

lemma snapScan_single: "snapScan point polyline s s best = snapStep point polyline s best"
  by (simp add: snapScan_def)

lemma snapScan_extend:
  "s \<le> e \<Longrightarrow> snapScan point polyline s (e + 1) best =
     snapStep point polyline (e + 1) (snapScan point polyline s e best)"
  by (simp add: snapScan_def upto_rec2)

lemma snapScan_first_min_aux:
  "bestDistSq init = None \<Longrightarrow>
   \<exists>i. s \<le> i \<and> i \<le> s + int n \<and>
       snapScan point polyline s (s + int n) init = segBest point polyline i \<and>
       (\<forall>j. s \<le> j \<and> j \<le> s + int n \<longrightarrow> segDSq point polyline i \<le> segDSq point polyline j) \<and>
       (\<forall>j. s \<le> j \<and> j < i \<longrightarrow> segDSq point polyline i < segDSq point polyline j)"
proof (induction n)
  case 0
  then show ?case
    by (auto simp add: snapScan_single snapStep_segBest intro!: exI [of _ s])
next
  case (Suc n)
  define e where "e = s + int n"
  define d where "d = segDSq point polyline"
  from Suc obtain i where i: "s \<le> i" "i \<le> e"
    "snapScan point polyline s e init = segBest point polyline i"
    "\<forall>j. s \<le> j \<and> j \<le> e \<longrightarrow> d i \<le> d j"
    "\<forall>j. s \<le> j \<and> j < i \<longrightarrow> d i < d j"
    unfolding e_def d_def by blast
  have se: "s \<le> e" by (simp add: e_def)
  have e1: "s + int (Suc n) = e + 1" by (simp add: e_def)
  have ext: "snapScan point polyline s (e + 1) init =
      snapStep point polyline (e + 1) (segBest point polyline i)"
    by (subst snapScan_extend) (simp_all add: i(3) se)
  have goal: "\<exists>i. s \<le> i \<and> i \<le> e + 1 \<and>
       snapScan point polyline s (e + 1) init = segBest point polyline i \<and>
       (\<forall>j. s \<le> j \<and> j \<le> e + 1 \<longrightarrow> d i \<le> d j) \<and>
       (\<forall>j. s \<le> j \<and> j < i \<longrightarrow> d i < d j)"
  proof (cases "d (e + 1) < d i")
    case True
    have r: "snapScan point polyline s (e + 1) init = segBest point polyline (e + 1)"
      using True by (simp add: ext snapStep_segBest segBest_def d_def)
    have le: "d (e + 1) \<le> d j" if "s \<le> j \<and> j \<le> e + 1" for j
    proof (cases "j \<le> e")
      case True
      then have "d i \<le> d j" using i(4) that by blast
      with \<open>d (e + 1) < d i\<close> show ?thesis by simp
    next
      case False
      then have "j = e + 1" using that by simp
      then show ?thesis by simp
    qed
    have lt: "d (e + 1) < d j" if "s \<le> j \<and> j < e + 1" for j
    proof -
      have "d i \<le> d j" using i(4) that by simp
      with True show ?thesis by simp
    qed
    show ?thesis
      using r le lt se by (intro exI [of _ "e + 1"]) simp
  next
    case False
    have r: "snapScan point polyline s (e + 1) init = segBest point polyline i"
      using False by (simp add: ext snapStep_segBest segBest_def d_def)
    have le: "d i \<le> d j" if "s \<le> j \<and> j \<le> e + 1" for j
    proof (cases "j \<le> e")
      case True
      then show ?thesis using i(4) that by blast
    next
      case False
      then have "j = e + 1" using that by simp
      then show ?thesis using \<open>\<not> d (e + 1) < d i\<close> by simp
    qed
    show ?thesis
      using r le i(1,2,5) by (intro exI [of _ i]) simp
  qed
  show ?case unfolding e1 using goal unfolding d_def .
qed

lemma snapScan_first_min:
  assumes "bestDistSq init = None" and "s \<le> e"
  shows "\<exists>i. s \<le> i \<and> i \<le> e \<and>
       snapScan point polyline s e init = segBest point polyline i \<and>
       (\<forall>j. s \<le> j \<and> j \<le> e \<longrightarrow> segDSq point polyline i \<le> segDSq point polyline j) \<and>
       (\<forall>j. s \<le> j \<and> j < i \<longrightarrow> segDSq point polyline i < segDSq point polyline j)"
proof -
  from assms(2) have "e = s + int (nat (e - s))" by simp
  then show ?thesis
    using snapScan_first_min_aux [OF assms(1), of s "nat (e - s)" point polyline] by metis
qed


lemma clampIndex_range: "(0::int) \<le> mx \<Longrightarrow> 0 \<le> clampIndex v mx \<and> clampIndex v mx \<le> mx"
  by (simp add: clampIndex_def)

lemma clampIndex_mono: "(a::int) \<le> b \<Longrightarrow> clampIndex a mx \<le> clampIndex b mx"
  by (simp add: clampIndex_def)

lemma snap_window:
  assumes "2 \<le> len"
  shows "0 \<le> snapStartIdx len options \<and> snapStartIdx len options \<le> snapEndIdx len options \<and>
         snapEndIdx len options \<le> int len - 2"
proof (cases "optSegmentHint options")
  case None
  then show ?thesis using assms by (simp add: snapStartIdx_def snapEndIdx_def)
next
  case (Some h)
  have mx: "0 \<le> int len - 2" using assms by simp
  show ?thesis
    using Some clampIndex_range [OF mx] clampIndex_mono
    by (simp add: snapStartIdx_def snapEndIdx_def Let_def)
qed

lemma snapPointToPolyline_first_min:
  assumes "2 \<le> length polyline"
  shows "\<exists>i. snapStartIdx (length polyline) options \<le> i \<and>
             i \<le> snapEndIdx (length polyline) options \<and>
             snapPointToPolyline point polyline options = snapResultAt point polyline i \<and>
             (\<forall>j. snapStartIdx (length polyline) options \<le> j \<and>
                  j \<le> snapEndIdx (length polyline) options \<longrightarrow>
                  segDSq point polyline i \<le> segDSq point polyline j) \<and>
             (\<forall>j. snapStartIdx (length polyline) options \<le> j \<and> j < i \<longrightarrow>
                  segDSq point polyline i < segDSq point polyline j)"
proof -
  let ?s = "snapStartIdx (length polyline) options"
  let ?e = "snapEndIdx (length polyline) options"
  let ?init = "\<lparr> bestDistSq = None, bestPos = (fst (polyline ! 0), snd (polyline ! 0)),
                 bestIdx = 0, bestT = 0, bestSegment = (polyline ! 0, polyline ! 0) \<rparr>"
  have se: "?s \<le> ?e" using snap_window [OF assms] by blast
  have "bestDistSq ?init = None" by simp
  from snapScan_first_min [OF this se, of point polyline]
  obtain i where i: "?s \<le> i" "i \<le> ?e"
    "snapScan point polyline ?s ?e ?init = segBest point polyline i"
    "\<forall>j. ?s \<le> j \<and> j \<le> ?e \<longrightarrow> segDSq point polyline i \<le> segDSq point polyline j"
    "\<forall>j. ?s \<le> j \<and> j < i \<longrightarrow> segDSq point polyline i < segDSq point polyline j"
    by blast
  have "snapPointToPolyline point polyline options = snapResultAt point polyline i"
    using assms i(3)
    by (simp add: snapPointToPolyline_def Let_def snapResultAt_def segBest_def)
  with i show ?thesis by blast
qed

lemma snapToPolyline_eq: "snapToPolyline point polyline options = snapPointToPolyline point polyline options"
  by (simp add: snapToPolyline_def snapPointToPolyline_def)

lemma segT_range: "0 \<le> segT point polyline i \<and> segT point polyline i \<le> 1"
  by (simp add: segT_def Let_def)

lemma snapPointToPolyline_index_range:
  assumes "2 \<le> length polyline"
  shows "0 \<le> SnapResult.segmentIndex (snapPointToPolyline point polyline options) \<and>
         SnapResult.segmentIndex (snapPointToPolyline point polyline options) \<le>
           int (length polyline) - 2"
proof -
  from snapPointToPolyline_first_min [OF assms, of options point]
  obtain i where i: "snapStartIdx (length polyline) options \<le> i"
    "i \<le> snapEndIdx (length polyline) options"
    "snapPointToPolyline point polyline options = snapResultAt point polyline i"
    by blast
  then show ?thesis
    using snap_window [OF assms, of options] by (simp add: snapResultAt_def)
qed

subsection \<open>The result of a scan lies on the polyline\<close>

text \<open>
  Claim C10.  For every point, every polyline with at least two points and every options
  value, \<open>snapPointToPolyline\<close> returns a \<open>segmentIndex\<close> between \<open>0\<close> and
  \<open>polyline.length - 2\<close>, a \<open>t\<close> between \<open>0\<close> and \<open>1\<close>, as \<open>position\<close> the point of that
  segment at parameter \<open>t\<close>, and as \<open>angle\<close> the bearing from the start to the end of that
  segment.
\<close>

theorem snapPointToPolyline_on_segment:
  assumes "2 \<le> length polyline"
  shows "let r = snapPointToPolyline point polyline options;
             i = SnapResult.segmentIndex r;
             A = polyline ! nat i;
             B = polyline ! nat (i + 1)
         in 0 \<le> i \<and> i \<le> int (length polyline) - 2 \<and>
            0 \<le> SnapResult.t r \<and> SnapResult.t r \<le> 1 \<and>
            SnapResult.position r =
              (fst A + (fst B - fst A) * SnapResult.t r, snd A + (snd B - snd A) * SnapResult.t r) \<and>
            SnapResult.angle r = calculateBearing A B"
proof -
  from snapPointToPolyline_first_min [OF assms, of options point]
  obtain i where i: "snapStartIdx (length polyline) options \<le> i"
    "i \<le> snapEndIdx (length polyline) options"
    "snapPointToPolyline point polyline options = snapResultAt point polyline i"
    by blast
  have "0 \<le> i" "i \<le> int (length polyline) - 2"
    using snap_window [OF assms, of options] i(1,2) by linarith+
  then show ?thesis
    using segT_range [of point polyline i]
    by (simp add: i(3) snapResultAt_def segProj_def Let_def)
qed

text \<open>An instance: the point \<open>(1, 1/2)\<close> against the segment from \<open>(0, 0)\<close> to \<open>(0, 1)\<close>.\<close>

theorem snapPointToPolyline_on_segment_witness:
  "2 \<le> length [(0, 0), (0, 1) :: Coordinate] \<and>
   (let r = snapPointToPolyline (1, 1 / 2) [(0, 0), (0, 1)] None;
        i = SnapResult.segmentIndex r;
        A = [(0, 0), (0, 1)] ! nat i;
        B = [(0, 0), (0, 1)] ! nat (i + 1)
    in 0 \<le> i \<and> i \<le> int (length [(0, 0), (0, 1) :: Coordinate]) - 2 \<and>
       0 \<le> SnapResult.t r \<and> SnapResult.t r \<le> 1 \<and>
       SnapResult.position r =
         (fst A + (fst B - fst A) * SnapResult.t r, snd A + (snd B - snd A) * SnapResult.t r) \<and>
       SnapResult.angle r = calculateBearing A B)"
  using snapPointToPolyline_on_segment [of "[(0, 0), (0, 1)]" "(1, 1 / 2)" None] by simp

subsection \<open>Polylines without a segment\<close>

text \<open>
  Claim C7, as the code has it.  For every point and every polyline with fewer than two
  points, both snap functions (\<open>snapPointToPolyline\<close> of geoUtils.ts and \<open>snapToPolyline\<close>
  of polyUtils.ts) return the input point itself, with angle \<open>0\<close>, \<open>segmentIndex 0\<close> and
  \<open>t = 0\<close>; this holds for the empty polyline and for a polyline of one point alike, so
  \<open>segmentIndex = 0\<close> names no segment there.
\<close>

theorem degenerate_polyline_returns_input:
  assumes "length polyline < 2"
  shows "snapPointToPolyline point polyline options =
           \<lparr> SnapResult.position = point, SnapResult.angle = 0,
             SnapResult.segmentIndex = 0, SnapResult.t = 0 \<rparr> \<and>
         snapToPolyline point polyline options =
           \<lparr> SnapResult.position = point, SnapResult.angle = 0,
             SnapResult.segmentIndex = 0, SnapResult.t = 0 \<rparr>"
  using assms by (simp add: snapPointToPolyline_def snapToPolyline_def)

text \<open>An instance: the point \<open>(1, 1)\<close> against the one-point polyline \<open>[(0, 0)]\<close>.\<close>

theorem degenerate_polyline_returns_input_witness:
  "length [(0, 0) :: Coordinate] < 2 \<and>
   snapPointToPolyline (1, 1) [(0, 0)] None =
     \<lparr> SnapResult.position = (1, 1), SnapResult.angle = 0,
       SnapResult.segmentIndex = 0, SnapResult.t = 0 \<rparr> \<and>
   snapToPolyline (1, 1) [(0, 0)] None =
     \<lparr> SnapResult.position = (1, 1), SnapResult.angle = 0,
       SnapResult.segmentIndex = 0, SnapResult.t = 0 \<rparr>"
  using degenerate_polyline_returns_input [of "[(0, 0)]" "(1, 1)" None] by simp

text \<open>
  The claim as first stated expects the single point of a one-point polyline.  Neither
  function returns it: for the point \<open>(1, 1)\<close> and the polyline \<open>[(0, 0)]\<close> the position of
  the result differs from \<open>polyline[0]\<close>.
\<close>

theorem single_point_polyline_counterexample:
  "SnapResult.position (snapPointToPolyline (1, 1) [(0, 0)] None) \<noteq> [(0, 0)] ! 0 \<and>
   SnapResult.position (snapToPolyline (1, 1) [(0, 0)] None) \<noteq> [(0, 0)] ! 0"
  by (simp add: snapPointToPolyline_def snapToPolyline_def)

subsection \<open>A windowed scan against the full scan\<close>

lemma windowed_scan_agrees_with_full_scan:
  assumes len: "2 \<le> length polyline"
    and full: "optSegmentHint fullOptions = None"
    and lo: "snapStartIdx (length polyline) options \<le>
               SnapResult.segmentIndex (snapPointToPolyline point polyline fullOptions)"
    and hi: "SnapResult.segmentIndex (snapPointToPolyline point polyline fullOptions) \<le>
               snapEndIdx (length polyline) options"
  shows "snapPointToPolyline point polyline options =
         snapPointToPolyline point polyline fullOptions"
proof -
  let ?d = "segDSq point polyline"
  let ?s = "snapStartIdx (length polyline) options"
  let ?e = "snapEndIdx (length polyline) options"
  have fs: "snapStartIdx (length polyline) fullOptions = 0"
    and fe: "snapEndIdx (length polyline) fullOptions = int (length polyline) - 2"
    using full by (simp_all add: snapStartIdx_def snapEndIdx_def)
  from snapPointToPolyline_first_min [OF len, of fullOptions point]
  obtain i where i: "0 \<le> i" "i \<le> int (length polyline) - 2"
    "snapPointToPolyline point polyline fullOptions = snapResultAt point polyline i"
    "\<forall>j. 0 \<le> j \<and> j \<le> int (length polyline) - 2 \<longrightarrow> ?d i \<le> ?d j"
    "\<forall>j. 0 \<le> j \<and> j < i \<longrightarrow> ?d i < ?d j"
    unfolding fs fe by blast
  from snapPointToPolyline_first_min [OF len, of options point]
  obtain k where k: "?s \<le> k" "k \<le> ?e"
    "snapPointToPolyline point polyline options = snapResultAt point polyline k"
    "\<forall>j. ?s \<le> j \<and> j \<le> ?e \<longrightarrow> ?d k \<le> ?d j"
    "\<forall>j. ?s \<le> j \<and> j < k \<longrightarrow> ?d k < ?d j"
    by blast
  have iw: "?s \<le> i" "i \<le> ?e"
    using lo hi by (simp_all add: i(3) snapResultAt_def)
  have kr: "0 \<le> k" "k \<le> int (length polyline) - 2"
    using snap_window [OF len, of options] k(1,2) by linarith+
  have "?d k \<le> ?d i" using k(4) iw by blast
  moreover have "?d i \<le> ?d k" using i(4) kr by blast
  ultimately have eq: "?d i = ?d k" by simp
  have "\<not> k < i" using i(5) kr(1) eq by auto
  moreover have "\<not> i < k" using k(5) iw(1) eq by auto
  ultimately have "i = k" by simp
  then show ?thesis by (simp add: i(3) k(3))
qed

lemma window_contains:
  assumes "0 \<le> i" "i \<le> mx" "0 \<le> rad" "h - rad \<le> i" "i \<le> h + rad"
  shows "clampIndex (clampIndex h mx - rad) mx \<le> i \<and> i \<le> clampIndex (clampIndex h mx + rad) (mx::int)"
  using assms by (simp add: clampIndex_def min_def max_def)

text \<open>
  Claim C3.  For every point and every polyline: let \<open>i\<close> be the segment index that the
  scan without a hint finds.  A scan with a segment hint \<open>h\<close>, which is a segment index
  and so a whole number, and with any search radius (a missing radius counts as \<open>0\<close>,
  as in the code) whose window \<open>[h - radius, h + radius]\<close> contains \<open>i\<close> returns the same
  result: the same position, angle, segment index and \<open>t\<close>.
\<close>

theorem hinted_scan_matches_full_scan:
  assumes hint: "optSegmentHint options = Some (real_of_int h)"
    and radius: "radius = (case optSearchRadius options of None \<Rightarrow> 0 | Some r \<Rightarrow> r)"
    and lo: "real_of_int h - radius \<le>
               real_of_int (SnapResult.segmentIndex (snapPointToPolyline point polyline None))"
    and hi: "real_of_int (SnapResult.segmentIndex (snapPointToPolyline point polyline None)) \<le>
               real_of_int h + radius"
  shows "snapPointToPolyline point polyline options = snapPointToPolyline point polyline None"
proof (cases "2 \<le> length polyline")
  case False
  then show ?thesis by (simp add: snapPointToPolyline_def)
next
  case True
  let ?i = "SnapResult.segmentIndex (snapPointToPolyline point polyline None)"
  let ?mx = "int (length polyline) - 2"
  have ir: "0 \<le> ?i" "?i \<le> ?mx"
    using snapPointToPolyline_index_range [OF True, of point None] by simp_all
  have "real_of_int h - radius \<le> real_of_int h + radius" using lo hi by linarith
  then have rpos: "0 \<le> radius" by simp
  then have fpos: "0 \<le> \<lfloor>radius\<rfloor>" by simp
  have "real_of_int (h - ?i) \<le> radius" using lo by simp
  then have l: "h - ?i \<le> \<lfloor>radius\<rfloor>" by (simp add: le_floor_iff)
  have "real_of_int (?i - h) \<le> radius" using hi by simp
  then have u: "?i - h \<le> \<lfloor>radius\<rfloor>" by (simp add: le_floor_iff)
  have w: "clampIndex (clampIndex h ?mx - \<lfloor>radius\<rfloor>) ?mx \<le> ?i \<and>
           ?i \<le> clampIndex (clampIndex h ?mx + \<lfloor>radius\<rfloor>) ?mx"
    using window_contains [OF ir fpos] l u by simp
  have s: "snapStartIdx (length polyline) options = clampIndex (clampIndex h ?mx - \<lfloor>radius\<rfloor>) ?mx"
    and e: "snapEndIdx (length polyline) options = clampIndex (clampIndex h ?mx + \<lfloor>radius\<rfloor>) ?mx"
    using hint fpos radius by (simp_all add: snapStartIdx_def snapEndIdx_def Let_def max_def)
  show ?thesis
    by (rule windowed_scan_agrees_with_full_scan [OF True])
       (simp_all add: optSegmentHint_def s e w)
qed

text \<open>
  An instance: hint \<open>0\<close> and radius \<open>3/2\<close> on a polyline of two segments, where the full
  scan finds segment \<open>1\<close>.
\<close>

theorem hinted_scan_matches_full_scan_witness:
  "optSegmentHint (Some \<lparr> segmentHint = Some (real_of_int 0), searchRadius = Some (3 / 2) \<rparr>) =
     Some (real_of_int 0) \<and>
   real_of_int 0 - 3 / 2 \<le>
     real_of_int (SnapResult.segmentIndex
        (snapPointToPolyline (0, 3 / 2) [(0, 0), (0, 1), (0, 2)] None)) \<and>
   real_of_int (SnapResult.segmentIndex
        (snapPointToPolyline (0, 3 / 2) [(0, 0), (0, 1), (0, 2)] None)) \<le> real_of_int 0 + 3 / 2 \<and>
   snapPointToPolyline (0, 3 / 2) [(0, 0), (0, 1), (0, 2)]
       (Some \<lparr> segmentHint = Some (real_of_int 0), searchRadius = Some (3 / 2) \<rparr>) =
     snapPointToPolyline (0, 3 / 2) [(0, 0), (0, 1), (0, 2)] None"
proof -
  have idx: "SnapResult.segmentIndex (snapPointToPolyline (0, 3 / 2) [(0, 0), (0, 1), (0, 2)] None) = 1"
    by (simp add: snapPointToPolyline_def snapStartIdx_def snapEndIdx_def optSegmentHint_def
        optSearchRadius_def snapScan_def snapStep_def Let_def upto.simps)
  show ?thesis
    using hinted_scan_matches_full_scan
      [of "Some \<lparr> segmentHint = Some (real_of_int 0), searchRadius = Some (3 / 2) \<rparr>" 0 "3 / 2"
          "(0, 3 / 2)" "[(0, 0), (0, 1), (0, 2)]"]
    by (simp add: idx optSegmentHint_def optSearchRadius_def)
qed


section \<open>Properties of the snap engine\<close>

lemma getSnappedPosition_unfold:
  "getSnappedPosition bus getDir upLine downLine options =
     (let apiDirection = getDir (BusItem.nodeid bus) (BusItem.nodeord bus) (BusItem.routeid bus);
          defaultResult = \<lparr> SnappedResult.position = (BusItem.gpslati bus, BusItem.gpslong bus),
                            SnappedResult.angle = 0,
                            direction = (case apiDirection of Some d \<Rightarrow> d | None \<Rightarrow> 0),
                            SnappedResult.segmentIndex = None \<rparr>;
          cu = snapCandidate bus options upLine 1;
          cd = snapCandidate bus options downLine 0
      in if apiDirection = Some 1 \<and> candidateValid cu then
           (case cu of Some c \<Rightarrow> asResult c | None \<Rightarrow> defaultResult)
         else if apiDirection = Some 0 \<and> candidateValid cd then
           (case cd of Some c \<Rightarrow> asResult c | None \<Rightarrow> defaultResult)
         else if candidateValid cu \<and> candidateValid cd then
           (case (cu, cd) of
              (Some u, Some d) \<Rightarrow> (if distance u < distance d then asResult u else asResult d)
            | _ \<Rightarrow> defaultResult)
         else if candidateValid cu then
           (case cu of Some c \<Rightarrow> asResult c | None \<Rightarrow> defaultResult)
         else if candidateValid cd then
           (case cd of Some c \<Rightarrow> asResult c | None \<Rightarrow> defaultResult)
         else defaultResult)"
  by (simp add: getSnappedPosition_def snapCandidate_def Let_def)

lemma snapCandidate_fields:
  assumes "snapCandidate bus options line dir = Some c"
  shows "direction c = dir"
    and "distance c =
           getHaversineDistanceMeters (BusItem.gpslati bus, BusItem.gpslong bus) (SnappedResult.position c)"
    and "isValid c = (distance c \<le> MAX_SNAP_DISTANCE_METERS)"
    and "2 \<le> length line"
  using assms
  by (auto simp add: snapCandidate_def createCandidate_def Let_def split: if_splits)

text \<open>
  Claim C1.  For every vehicle fix: if the direction resolver returns a direction code
  (\<open>1\<close> = up or \<open>0\<close> = down) and the projection of the fix onto that direction's polyline,
  the position of that direction's snap candidate, lies within
  \<open>MAX_SNAP_DISTANCE_METERS\<close> (50 m) of the fix, then \<open>getSnappedPosition\<close> returns that
  candidate, whatever the candidate of the opposite direction is.
\<close>

theorem trusted_direction_kept:
  assumes api: "getDir (BusItem.nodeid bus) (BusItem.nodeord bus) (BusItem.routeid bus) = Some dir"
    and dir: "dir = 1 \<or> dir = 0"
    and cand: "snapCandidate bus options (if dir = 1 then upLine else downLine) dir = Some c"
    and near: "getHaversineDistanceMeters (BusItem.gpslati bus, BusItem.gpslong bus)
                 (SnappedResult.position c) \<le> MAX_SNAP_DISTANCE_METERS"
  shows "getSnappedPosition bus getDir upLine downLine options = asResult c"
proof -
  have v: "isValid c" using snapCandidate_fields(2,3) [OF cand] near by simp
  from dir show ?thesis
  proof
    assume "dir = 1"
    then show ?thesis using api cand v
      by (simp add: getSnappedPosition_unfold candidateValid_def Let_def)
  next
    assume "dir = 0"
    then show ?thesis using api cand v
      by (simp add: getSnappedPosition_unfold candidateValid_def Let_def)
  qed
qed

text \<open>
  Claim C2, as the code has it.  For every vehicle fix whose projections onto the up and
  the down polyline both lie further than 50 m from the fix (a polyline with fewer than two
  points has no candidate at all), \<open>getSnappedPosition\<close> returns the raw fix position
  unmodified, with angle \<open>0\<close> and no segment index; the direction is the resolver's
  direction when it gave one, and \<open>0\<close> (down) when the resolver returned unresolved.
\<close>

theorem off_route_returns_raw_fix:
  assumes up: "\<And>c. snapCandidate bus options upLine 1 = Some c \<Longrightarrow>
             MAX_SNAP_DISTANCE_METERS <
               getHaversineDistanceMeters (BusItem.gpslati bus, BusItem.gpslong bus)
                 (SnappedResult.position c)"
    and down: "\<And>c. snapCandidate bus options downLine 0 = Some c \<Longrightarrow>
             MAX_SNAP_DISTANCE_METERS <
               getHaversineDistanceMeters (BusItem.gpslati bus, BusItem.gpslong bus)
                 (SnappedResult.position c)"
  shows "getSnappedPosition bus getDir upLine downLine options =
           \<lparr> SnappedResult.position = (BusItem.gpslati bus, BusItem.gpslong bus),
             SnappedResult.angle = 0,
             direction = (case getDir (BusItem.nodeid bus) (BusItem.nodeord bus) (BusItem.routeid bus) of
                            Some d \<Rightarrow> d | None \<Rightarrow> 0),
             SnappedResult.segmentIndex = None \<rparr>"
proof -
  have u: "\<not> candidateValid (snapCandidate bus options upLine 1)"
  proof (cases "snapCandidate bus options upLine 1")
    case None
    then show ?thesis by (simp add: candidateValid_def)
  next
    case (Some c)
    then show ?thesis
      using up [OF Some] snapCandidate_fields(2,3) [OF Some] by (simp add: candidateValid_def)
  qed
  have d: "\<not> candidateValid (snapCandidate bus options downLine 0)"
  proof (cases "snapCandidate bus options downLine 0")
    case None
    then show ?thesis by (simp add: candidateValid_def)
  next
    case (Some c)
    then show ?thesis
      using down [OF Some] snapCandidate_fields(2,3) [OF Some] by (simp add: candidateValid_def)
  qed
  show ?thesis using u d by (simp add: getSnappedPosition_unfold Let_def)
qed

lemma haversine_same_meridian:
  assumes "\<bar>lat2 - lat1\<bar> < 180"
  shows "getHaversineDistance lat1 lon lat2 lon = 6371 * \<bar>toRad (lat2 - lat1)\<bar>"
proof -
  define x where "x = toRad (lat2 - lat1) / 2"
  have xr: "\<bar>x\<bar> < pi / 2"
  proof -
    have "\<bar>x\<bar> = \<bar>lat2 - lat1\<bar> * pi / 360" by (simp add: x_def toRad_def abs_mult)
    also have "\<dots> < 180 * pi / 360" using assms by simp
    finally show ?thesis by simp
  qed
  then have cpos: "0 < cos x" by (intro cos_gt_zero_pi) (simp_all add: abs_less_iff)
  have a: "(sin x)\<^sup>2 + cos (toRad lat1) * cos (toRad lat2) * (sin (toRad (lon - lon) / 2))\<^sup>2 = (sin x)\<^sup>2"
    by (simp add: toRad_def)
  have s1: "sqrt ((sin x)\<^sup>2) = \<bar>sin x\<bar>" by simp
  have "1 - (sin x)\<^sup>2 = (cos x)\<^sup>2" by (simp add: cos_squared_eq)
  then have s2: "sqrt (1 - (sin x)\<^sup>2) = cos x" using cpos by simp
  have "0 \<le> \<bar>x\<bar>" by simp
  with pi_gt_zero have absx: "-(pi / 2) < \<bar>x\<bar>" by linarith
  have "\<bar>sin x\<bar> / cos x = tan \<bar>x\<bar>"
  proof (cases "0 \<le> x")
    case True
    then have "0 \<le> sin x" using xr by (intro sin_ge_zero) (simp_all add: abs_less_iff)
    then show ?thesis using True by (simp add: tan_def)
  next
    case False
    then have "0 \<le> sin (- x)" using xr by (intro sin_ge_zero) (simp_all add: abs_less_iff)
    then have "sin x \<le> 0" by simp
    then show ?thesis using False by (simp add: tan_def)
  qed
  then have "atan2 \<bar>sin x\<bar> (cos x) = \<bar>x\<bar>"
    using cpos xr absx by (simp add: atan2_def arctan_tan)
  then have "getHaversineDistance lat1 lon lat2 lon = 6371 * (2 * \<bar>x\<bar>)"
    unfolding getHaversineDistance_def Let_def x_def [symmetric] a s1 s2 by simp
  also have "2 * \<bar>x\<bar> = \<bar>toRad (lat2 - lat1)\<bar>" by (simp add: x_def)
  finally show ?thesis .
qed


lemma haversine_meters_same_meridian:
  "\<bar>lat2 - lat1\<bar> < 180 \<Longrightarrow>
   getHaversineDistanceMeters (lat1, lon) (lat2, lon) = 6371000 * \<bar>lat2 - lat1\<bar> * pi / 180"
  by (simp add: getHaversineDistanceMeters_def haversine_same_meridian toRad_def abs_mult)

lemma candidate_far_up:
  "\<exists>c. snapCandidate (busAt (1 / 500) 0) None [(0, 0), (0, 1)] 1 = Some c \<and>
       SnappedResult.position c = (0, 0) \<and> distance c = 6371 * pi / 90"
  by (simp add: snapCandidate_def createCandidate_def busAt_def getStopCoordIndex_def
      getSegmentHint_def orElse_def snapPointToPolyline_def snapStartIdx_def snapEndIdx_def
      optSegmentHint_def optSearchRadius_def snapScan_def snapStep_def Let_def
      haversine_meters_same_meridian)

lemma candidate_far_down:
  "\<exists>c. snapCandidate (busAt (1 / 500) 0) None [(0, 0), (0, - 1)] 0 = Some c \<and>
       SnappedResult.position c = (0, 0) \<and> distance c = 6371 * pi / 90"
  by (simp add: snapCandidate_def createCandidate_def busAt_def getStopCoordIndex_def
      getSegmentHint_def orElse_def snapPointToPolyline_def snapStartIdx_def snapEndIdx_def
      optSegmentHint_def optSearchRadius_def snapScan_def snapStep_def Let_def
      haversine_meters_same_meridian)


lemma candidate_near_value:
  "snapCandidate (busAt 0 0) None [(1 / 10000, 0), (1 / 10000, 1)] 1 =
     Some \<lparr> SnappedResult.position = (1 / 10000, 0),
            SnappedResult.angle = calculateBearing (1 / 10000, 0) (1 / 10000, 1),
            direction = 1, SnappedResult.segmentIndex = Some 0,
            distance = 6371 * pi / 1800, isValid = True \<rparr>"
  using pi_less_4
  by (simp add: snapCandidate_def createCandidate_def busAt_def getStopCoordIndex_def
      getSegmentHint_def orElse_def snapPointToPolyline_def snapStartIdx_def snapEndIdx_def
      optSegmentHint_def optSearchRadius_def snapScan_def snapStep_def Let_def
      haversine_meters_same_meridian MAX_SNAP_DISTANCE_METERS_def)

text \<open>
  An instance of the trusted direction: the resolver says up, the up line passes about
  11 m from the fix and the down line passes through the fix; the up candidate is
  returned although the down projection is closer.
\<close>

theorem trusted_direction_kept_witness:
  "(\<lambda>nid ord rid. Some 1) (BusItem.nodeid (busAt 0 0)) (BusItem.nodeord (busAt 0 0))
       (BusItem.routeid (busAt 0 0)) = Some (1::int) \<and>
   snapCandidate (busAt 0 0) None [(1 / 10000, 0), (1 / 10000, 1)] 1 =
     Some \<lparr> SnappedResult.position = (1 / 10000, 0),
            SnappedResult.angle = calculateBearing (1 / 10000, 0) (1 / 10000, 1),
            direction = 1, SnappedResult.segmentIndex = Some 0,
            distance = 6371 * pi / 1800, isValid = True \<rparr> \<and>
   getHaversineDistanceMeters (0, 0) (1 / 10000, 0) \<le> MAX_SNAP_DISTANCE_METERS \<and>
   getHaversineDistanceMeters (0, 0)
     (SnapResult.position (snapPointToPolyline (0, 0) [(0, 0), (0, 1)] None)) <
   getHaversineDistanceMeters (0, 0) (1 / 10000, 0) \<and>
   getSnappedPosition (busAt 0 0) (\<lambda>nid ord rid. Some 1)
       [(1 / 10000, 0), (1 / 10000, 1)] [(0, 0), (0, 1)] None =
     \<lparr> SnappedResult.position = (1 / 10000, 0),
       SnappedResult.angle = calculateBearing (1 / 10000, 0) (1 / 10000, 1),
       direction = 1, SnappedResult.segmentIndex = Some 0 \<rparr>"
proof -
  let ?c = "\<lparr> SnappedResult.position = (1 / 10000, 0),
            SnappedResult.angle = calculateBearing (1 / 10000, 0) (1 / 10000, 1),
            direction = 1, SnappedResult.segmentIndex = Some 0,
            distance = 6371 * pi / 1800, isValid = True \<rparr>"
  have near: "getHaversineDistanceMeters (0, 0) (1 / 10000, 0) \<le> MAX_SNAP_DISTANCE_METERS"
    using pi_less_4 by (simp add: haversine_meters_same_meridian MAX_SNAP_DISTANCE_METERS_def)
  have closer: "getHaversineDistanceMeters (0, 0)
     (SnapResult.position (snapPointToPolyline (0, 0) [(0, 0), (0, 1)] None)) <
   getHaversineDistanceMeters (0, 0) (1 / 10000, 0)"
    by (simp add: snapPointToPolyline_def snapStartIdx_def snapEndIdx_def
      optSegmentHint_def snapScan_def snapStep_def Let_def haversine_meters_same_meridian)
  have "getSnappedPosition (busAt 0 0) (\<lambda>nid ord rid. Some 1)
       [(1 / 10000, 0), (1 / 10000, 1)] [(0, 0), (0, 1)] None = asResult ?c"
    using trusted_direction_kept
      [of "\<lambda>nid ord rid. Some 1" "busAt 0 0" 1 None "[(1 / 10000, 0), (1 / 10000, 1)]"
          "[(0, 0), (0, 1)]" ?c]
      candidate_near_value near
    by (simp add: busAt_def)
  then show ?thesis using candidate_near_value near closer by (simp add: asResult_def)
qed

text \<open>
  An instance of the off-route case: a fix about 222 m from both lines, with the resolver
  answering up.
\<close>

theorem off_route_returns_raw_fix_witness:
  "MAX_SNAP_DISTANCE_METERS < getHaversineDistanceMeters (1 / 500, 0) (0, 0) \<and>
   getSnappedPosition (busAt (1 / 500) 0) (\<lambda>nid ord rid. Some 1)
       [(0, 0), (0, 1)] [(0, 0), (0, - 1)] None =
     \<lparr> SnappedResult.position = (1 / 500, 0), SnappedResult.angle = 0,
       direction = 1, SnappedResult.segmentIndex = None \<rparr>"
proof -
  have far: "MAX_SNAP_DISTANCE_METERS < getHaversineDistanceMeters (1 / 500, 0) (0, 0)"
    using pi_ge_two by (simp add: haversine_meters_same_meridian MAX_SNAP_DISTANCE_METERS_def)
  have up: "MAX_SNAP_DISTANCE_METERS <
      getHaversineDistanceMeters (BusItem.gpslati (busAt (1 / 500) 0), BusItem.gpslong (busAt (1 / 500) 0))
        (SnappedResult.position c)"
    if "snapCandidate (busAt (1 / 500) 0) None [(0, 0), (0, 1)] 1 = Some c" for c
    using candidate_far_up that far by (auto simp add: busAt_def)
  have down: "MAX_SNAP_DISTANCE_METERS <
      getHaversineDistanceMeters (BusItem.gpslati (busAt (1 / 500) 0), BusItem.gpslong (busAt (1 / 500) 0))
        (SnappedResult.position c)"
    if "snapCandidate (busAt (1 / 500) 0) None [(0, 0), (0, - 1)] 0 = Some c" for c
    using candidate_far_down that far by (auto simp add: busAt_def)
  show ?thesis
    using off_route_returns_raw_fix [of "busAt (1 / 500) 0" None "[(0, 0), (0, 1)]" "[(0, 0), (0, - 1)]"
        "\<lambda>nid ord rid. Some 1", OF up down] far
    by (simp add: busAt_def)
qed

text \<open>
  The claim as first stated excludes a default to the inbound direction.  For the same fix
  and an unresolved direction the result carries direction \<open>0\<close>, which is \<open>DOWN\<close>.
\<close>

theorem off_route_unresolved_counterexample:
  "MAX_SNAP_DISTANCE_METERS <
     getHaversineDistanceMeters (1 / 500, 0)
       (SnapResult.position (snapPointToPolyline (1 / 500, 0) [(0, 0), (0, 1)]
          (Some \<lparr> segmentHint = None, searchRadius = Some DEFAULT_SNAP_INDEX_RANGE \<rparr>))) \<and>
   MAX_SNAP_DISTANCE_METERS <
     getHaversineDistanceMeters (1 / 500, 0)
       (SnapResult.position (snapPointToPolyline (1 / 500, 0) [(0, 0), (0, - 1)]
          (Some \<lparr> segmentHint = None, searchRadius = Some DEFAULT_SNAP_INDEX_RANGE \<rparr>))) \<and>
   (\<lambda>nid ord rid. None) (BusItem.nodeid (busAt (1 / 500) 0)) (BusItem.nodeord (busAt (1 / 500) 0))
       (BusItem.routeid (busAt (1 / 500) 0)) = (None :: int option) \<and>
   direction (getSnappedPosition (busAt (1 / 500) 0) (\<lambda>nid ord rid. None)
       [(0, 0), (0, 1)] [(0, 0), (0, - 1)] None) = DOWN"
  using pi_ge_two
  by (simp add: getSnappedPosition_def createCandidate_def busAt_def getStopCoordIndex_def
      getSegmentHint_def orElse_def snapPointToPolyline_def snapStartIdx_def snapEndIdx_def
      optSegmentHint_def optSearchRadius_def snapScan_def snapStep_def Let_def
      haversine_meters_same_meridian MAX_SNAP_DISTANCE_METERS_def candidateValid_def DOWN_def)

section \<open>Properties of the split at the turn index\<close>

lemma splitByTurnIndex_parts:
  assumes len: "2 \<le> length coords"
    and idx: "idx = clampIndex (round ti) (int (length coords) - 1)"
  shows "upPolyline (splitByTurnIndex coords ti) =
           (if 1 \<le> idx then [take (nat idx + 1) coords] else [])"
    and "downPolyline (splitByTurnIndex coords ti) =
           (if idx \<le> int (length coords) - 2 then [drop (nat idx) coords] else [])"
proof -
  have r: "0 \<le> idx" "idx \<le> int (length coords) - 1"
    using len idx by (auto simp add: clampIndex_def min_def max_def)
  have n: "nat (idx + 1) = nat idx + 1" using r by simp
  show "upPolyline (splitByTurnIndex coords ti) =
           (if 1 \<le> idx then [take (nat idx + 1) coords] else [])"
    using len r by (auto simp add: splitByTurnIndex_def Let_def idx [symmetric] n)
  show "downPolyline (splitByTurnIndex coords ti) =
           (if idx \<le> int (length coords) - 2 then [drop (nat idx) coords] else [])"
    using len r by (auto simp add: splitByTurnIndex_def Let_def idx [symmetric])
qed

text \<open>
  Claim C5, as the code has it.  For every coordinate list with at least two points and
  every turn index, let \<open>idx\<close> be the rounded turn index clamped to \<open>[0, length - 1]\<close>.
  If \<open>idx \<ge> 1\<close>, the outbound part is \<open>coords[0..idx]\<close> inclusive, the inbound part is
  \<open>coords[idx..end]\<close> inclusive when \<open>idx \<le> length - 2\<close> and absent when \<open>idx\<close> is the last
  index, and the outbound part followed by the inbound part without its first element is
  the original coordinate list.
\<close>

theorem splitByTurnIndex_reconstructs:
  assumes len: "2 \<le> length coords"
    and idx: "idx = clampIndex (round ti) (int (length coords) - 1)"
    and pos: "1 \<le> idx"
  shows "upPolyline (splitByTurnIndex coords ti) = [take (nat idx + 1) coords] \<and>
         downPolyline (splitByTurnIndex coords ti) =
           (if idx \<le> int (length coords) - 2 then [drop (nat idx) coords] else []) \<and>
         concat (upPolyline (splitByTurnIndex coords ti)) @
           tl (concat (downPolyline (splitByTurnIndex coords ti))) = coords"
proof -
  have r: "0 \<le> idx" "idx \<le> int (length coords) - 1"
    using len idx by (auto simp add: clampIndex_def min_def max_def)
  have up: "upPolyline (splitByTurnIndex coords ti) = [take (nat idx + 1) coords]"
    using splitByTurnIndex_parts(1) [OF len idx] pos by simp
  have down: "downPolyline (splitByTurnIndex coords ti) =
           (if idx \<le> int (length coords) - 2 then [drop (nat idx) coords] else [])"
    by (rule splitByTurnIndex_parts(2) [OF len idx])
  have "take (nat idx + 1) coords @ tl (drop (nat idx) coords) = coords"
    by (simp add: tl_drop drop_Suc [symmetric] del: drop_Suc)
  moreover have "take (nat idx + 1) coords = coords" if "\<not> idx \<le> int (length coords) - 2"
    using that r by simp
  ultimately show ?thesis
    using up down by auto
qed

text \<open>An instance: three coordinates split at turn index \<open>1\<close>.\<close>

theorem splitByTurnIndex_reconstructs_witness:
  "2 \<le> length [(0, 0), (1, 1), (2, 2) :: Coordinate] \<and>
   (1::int) = clampIndex (round (1::real)) (int (length [(0, 0), (1, 1), (2, 2) :: Coordinate]) - 1) \<and>
   (1::int) \<le> 1 \<and>
   upPolyline (splitByTurnIndex [(0, 0), (1, 1), (2, 2)] 1) = [ [(0, 0), (1, 1)] ] \<and>
   downPolyline (splitByTurnIndex [(0, 0), (1, 1), (2, 2)] 1) = [ [(1, 1), (2, 2)] ] \<and>
   concat (upPolyline (splitByTurnIndex [(0, 0), (1, 1), (2, 2)] 1)) @
     tl (concat (downPolyline (splitByTurnIndex [(0, 0), (1, 1), (2, 2)] 1))) =
   [(0, 0), (1, 1), (2, 2)]"
proof -
  have c: "(1::int) = clampIndex (round (1::real)) (int (length [(0, 0), (1, 1), (2, 2) :: Coordinate]) - 1)"
    by (simp add: clampIndex_def)
  show ?thesis
    using splitByTurnIndex_reconstructs [of "[(0, 0), (1, 1), (2, 2)]" 1 1] c
    by simp
qed

text \<open>
  The claim as first stated covers every turn index.  At turn index \<open>0\<close> the outbound part
  would hold the turn point only; the code drops a part of one point, so the outbound part
  is absent and the concatenation loses the first coordinate.
\<close>

theorem splitByTurnIndex_turn_zero_counterexample:
  "upPolyline (splitByTurnIndex [(0, 0), (1, 1), (2, 2)] 0) = [] \<and>
   downPolyline (splitByTurnIndex [(0, 0), (1, 1), (2, 2)] 0) = [ [(0, 0), (1, 1), (2, 2)] ] \<and>
   concat (upPolyline (splitByTurnIndex [(0, 0), (1, 1), (2, 2)] 0)) @
     tl (concat (downPolyline (splitByTurnIndex [(0, 0), (1, 1), (2, 2)] 0))) \<noteq>
   [(0, 0), (1, 1), (2, 2)]"
  by (simp add: splitByTurnIndex_def clampIndex_def Let_def)

section \<open>Properties of the direction resolver\<close>

lemma closerCandidate_cases:
  "closerCandidate tgt best cur = best \<or> closerCandidate tgt best cur = cur"
  by (simp add: closerCandidate_def Let_def)

lemma betterOrEqual_trans:
  "betterOrEqual tgt a b \<Longrightarrow> betterOrEqual tgt b c \<Longrightarrow> betterOrEqual tgt a c"
  by (auto simp add: betterOrEqual_def)

lemma closerCandidate_better:
  "betterOrEqual tgt (closerCandidate tgt best cur) best \<and>
   betterOrEqual tgt (closerCandidate tgt best cur) cur"
  by (auto simp add: closerCandidate_def Let_def betterOrEqual_def)

lemma reduce_best:
  "betterOrEqual tgt (fold (\<lambda>cur best. closerCandidate tgt best cur) pool start) start \<and>
   (\<forall>c \<in> set pool. betterOrEqual tgt (fold (\<lambda>cur best. closerCandidate tgt best cur) pool start) c) \<and>
   (fold (\<lambda>cur best. closerCandidate tgt best cur) pool start = start \<or>
    fold (\<lambda>cur best. closerCandidate tgt best cur) pool start \<in> set pool)"
proof (induction pool arbitrary: start)
  case Nil
  show ?case by (simp add: betterOrEqual_def)
next
  case (Cons c pool)
  let ?s = "closerCandidate tgt start c"
  let ?r = "fold (\<lambda>cur best. closerCandidate tgt best cur) pool ?s"
  have s: "betterOrEqual tgt ?s start" "betterOrEqual tgt ?s c"
    using closerCandidate_better [of tgt start c] by simp_all
  have ih: "betterOrEqual tgt ?r ?s" "\<forall>c \<in> set pool. betterOrEqual tgt ?r c"
    "?r = ?s \<or> ?r \<in> set pool"
    using Cons.IH [of ?s] by simp_all
  have 1: "betterOrEqual tgt ?r start" using ih(1) s(1) by (rule betterOrEqual_trans)
  have 2: "betterOrEqual tgt ?r c" using ih(1) s(2) by (rule betterOrEqual_trans)
  have 3: "?r = start \<or> ?r \<in> set (c # pool)"
    using ih(3) closerCandidate_cases [of tgt start c] by auto
  show ?case using 1 2 3 ih(2) by simp
qed


text \<open>
  Claim C6.  For every non-empty candidate pool and every observed order, \<open>bestMatch\<close>
  chooses a candidate of the pool.  If some candidate's order equals the observed order,
  the chosen candidate has that order.  In every case the chosen candidate minimises the
  absolute difference to the observed order, and among the candidates at that same
  difference it has the smallest order.
\<close>

theorem bestMatch_choice:
  assumes "pool \<noteq> []"
  shows "\<exists>b. bestMatch pool tgt = Some b \<and> b \<in> set pool \<and>
           ((\<exists>c \<in> set pool. nodeord c = tgt) \<longrightarrow> nodeord b = tgt) \<and>
           (\<forall>c \<in> set pool. \<bar>nodeord b - tgt\<bar> \<le> \<bar>nodeord c - tgt\<bar>) \<and>
           (\<forall>c \<in> set pool. \<bar>nodeord c - tgt\<bar> = \<bar>nodeord b - tgt\<bar> \<longrightarrow> nodeord b \<le> nodeord c)"
proof (cases "find (\<lambda>c. nodeord c = tgt) pool")
  case (Some e)
  then have e: "e \<in> set pool" "nodeord e = tgt"
    by (auto simp add: find_Some_iff)
  have "bestMatch pool tgt = Some e" using Some by (simp add: bestMatch_def)
  then show ?thesis using e by auto
next
  case None
  then have no: "\<forall>c \<in> set pool. nodeord c \<noteq> tgt" by (simp add: find_None_iff)
  from assms obtain first rest where pool: "pool = first # rest" by (cases pool) auto
  let ?b = "fold (\<lambda>cur best. closerCandidate tgt best cur) pool first"
  have bm: "bestMatch pool tgt = Some ?b"
    using None pool by (simp add: bestMatch_def)
  have all: "\<forall>c \<in> set pool. betterOrEqual tgt ?b c"
    and mem: "?b = first \<or> ?b \<in> set pool"
    using reduce_best [of tgt pool first] by blast+
  have "?b \<in> set pool" using mem pool by auto
  then show ?thesis
    using bm no all by (auto simp add: betterOrEqual_def)
qed

text \<open>
  An instance: orders \<open>3\<close> and \<open>7\<close> are equally far from the observed order \<open>5\<close>; the
  candidate with order \<open>3\<close> is chosen.
\<close>

theorem bestMatch_choice_witness:
  "[\<lparr> routeid = ''R'', nodeord = 3, updowncd = 1 \<rparr>,
    \<lparr> routeid = ''R'', nodeord = 7, updowncd = 0 \<rparr>] \<noteq> [] \<and>
   bestMatch [\<lparr> routeid = ''R'', nodeord = 3, updowncd = 1 \<rparr>,
              \<lparr> routeid = ''R'', nodeord = 7, updowncd = 0 \<rparr>] 5 =
     Some \<lparr> routeid = ''R'', nodeord = 3, updowncd = 1 \<rparr>"
proof -
  let ?pool = "[\<lparr> routeid = ''R'', nodeord = 3, updowncd = 1 \<rparr>,
                \<lparr> routeid = ''R'', nodeord = 7, updowncd = 0 \<rparr>]"
  from bestMatch_choice [of ?pool 5]
  obtain b where b: "bestMatch ?pool 5 = Some b" "b \<in> set ?pool"
    "\<forall>c \<in> set ?pool. \<bar>nodeord c - 5\<bar> = \<bar>nodeord b - 5\<bar> \<longrightarrow> nodeord b \<le> nodeord c"
    by blast
  from b(2,3) have "b = \<lparr> routeid = ''R'', nodeord = 3, updowncd = 1 \<rparr>" by auto
  with b(1) show ?thesis by simp
qed

section \<open>Properties of the swap heuristic\<close>

lemma getSquaredDistanceToPolyline_nonneg: "0 \<le> getSquaredDistanceToPolyline point polyline"
  by (simp add: getSquaredDistanceToPolyline_def Let_def)

lemma fold_total_nonneg:
  "0 \<le> acc \<Longrightarrow>
   0 \<le> fold (\<lambda>point tot. tot + getSquaredDistanceToPolyline point polyline) points acc"
proof (induction points arbitrary: acc)
  case Nil
  then show ?case by simp
next
  case (Cons p points)
  have "0 \<le> acc + getSquaredDistanceToPolyline p polyline"
    using Cons.prems getSquaredDistanceToPolyline_nonneg [of p polyline] by simp
  from Cons.IH [OF this] show ?case by simp
qed

lemma calculateMeanSquaredError_nonneg:
  "calculateMeanSquaredError points polyline = Some m \<Longrightarrow> 0 \<le> m"
  using fold_total_nonneg [of 0 polyline points]
  by (auto simp add: calculateMeanSquaredError_def Let_def split: if_splits)

lemma shouldSwapPolylines_up_evidence:
  assumes "shouldSwapPolylines routeDetail stationMap upLine downLine"
  shows "\<exists>detail stations a b.
           routeDetail = Some detail \<and> stationMap = Some stations \<and>
           calculateMeanSquaredError
             (sampleCoordinates (fst (fold (collectStop stations) (RouteDetail.sequence detail) ([], []))))
             upLine = Some a \<and>
           calculateMeanSquaredError
             (sampleCoordinates (fst (fold (collectStop stations) (RouteDetail.sequence detail) ([], []))))
             downLine = Some b \<and>
           b < a * SWAP_RATIO_SQ"
proof -
  from assms obtain detail stations where ds: "routeDetail = Some detail" "stationMap = Some stations"
    by (auto simp add: shouldSwapPolylines_def split: option.splits)
  let ?stops = "fold (collectStop stations) (RouteDetail.sequence detail) ([], [])"
  have "\<exists>a b. calculateMeanSquaredError (sampleCoordinates (fst ?stops)) upLine = Some a \<and>
           calculateMeanSquaredError (sampleCoordinates (fst ?stops)) downLine = Some b \<and>
           b < a * SWAP_RATIO_SQ"
    using assms unfolding ds shouldSwapPolylines_def Let_def
    by (cases "calculateMeanSquaredError (sampleCoordinates (fst ?stops)) upLine";
        cases "calculateMeanSquaredError (sampleCoordinates (fst ?stops)) downLine";
        cases "calculateMeanSquaredError (sampleCoordinates (snd ?stops)) upLine";
        cases "calculateMeanSquaredError (sampleCoordinates (snd ?stops)) downLine")
       (simp_all split: if_splits)
  with ds show ?thesis by blast
qed

text \<open>
  Claim C4.  For every route detail, station map and pair of polylines: if
  \<open>shouldSwapPolylines\<close> answers that a swap is needed, then with the two polylines
  exchanged, and the same stop data, it answers that no swap is needed.
\<close>

theorem shouldSwapPolylines_swapped_labels:
  assumes "shouldSwapPolylines routeDetail stationMap upLine downLine"
  shows "\<not> shouldSwapPolylines routeDetail stationMap downLine upLine"
proof
  assume rev: "shouldSwapPolylines routeDetail stationMap downLine upLine"
  from shouldSwapPolylines_up_evidence [OF assms]
  obtain detail stations a b where 1: "routeDetail = Some detail" "stationMap = Some stations"
    "calculateMeanSquaredError
       (sampleCoordinates (fst (fold (collectStop stations) (RouteDetail.sequence detail) ([], []))))
       upLine = Some a"
    "calculateMeanSquaredError
       (sampleCoordinates (fst (fold (collectStop stations) (RouteDetail.sequence detail) ([], []))))
       downLine = Some b"
    "b < a * SWAP_RATIO_SQ"
    by blast
  from shouldSwapPolylines_up_evidence [OF rev] 1(1-4)
  have 2: "a < b * SWAP_RATIO_SQ" by auto
  have "0 \<le> a" "0 \<le> b"
    using 1(3,4) calculateMeanSquaredError_nonneg by blast+
  then show False using 1(5) 2 by (simp add: SWAP_RATIO_SQ_def)
qed

text \<open>
  An instance: the up stop \<open>A\<close> lies on the line labelled down and the down stop \<open>B\<close> on the
  line labelled up, so a swap is needed; with the lines exchanged it is not.
\<close>

theorem shouldSwapPolylines_swapped_labels_witness:
  "shouldSwapPolylines
     (Some \<lparr> RouteDetail.sequence = [\<lparr> SequenceItem.nodeord = 1, SequenceItem.nodeid = ''A'', SequenceItem.updowncd = 1 \<rparr>,
                         \<lparr> SequenceItem.nodeord = 2, SequenceItem.nodeid = ''B'', SequenceItem.updowncd = 0 \<rparr>] \<rparr>)
     (Some [''A'' \<mapsto> \<lparr> StationLocation.gpslati = 0, StationLocation.gpslong = 0 \<rparr>, ''B'' \<mapsto> \<lparr> StationLocation.gpslati = 1, StationLocation.gpslong = 0 \<rparr>])
     [(1, 0), (1, 1)] [(0, 0), (0, 1)] \<and>
   \<not> shouldSwapPolylines
     (Some \<lparr> RouteDetail.sequence = [\<lparr> SequenceItem.nodeord = 1, SequenceItem.nodeid = ''A'', SequenceItem.updowncd = 1 \<rparr>,
                         \<lparr> SequenceItem.nodeord = 2, SequenceItem.nodeid = ''B'', SequenceItem.updowncd = 0 \<rparr>] \<rparr>)
     (Some [''A'' \<mapsto> \<lparr> StationLocation.gpslati = 0, StationLocation.gpslong = 0 \<rparr>, ''B'' \<mapsto> \<lparr> StationLocation.gpslati = 1, StationLocation.gpslong = 0 \<rparr>])
     [(0, 0), (0, 1)] [(1, 0), (1, 1)]"
proof -
  let ?detail = "Some \<lparr> RouteDetail.sequence = [\<lparr> SequenceItem.nodeord = 1, SequenceItem.nodeid = ''A'', SequenceItem.updowncd = 1 \<rparr>,
                         \<lparr> SequenceItem.nodeord = 2, SequenceItem.nodeid = ''B'', SequenceItem.updowncd = 0 \<rparr>] \<rparr>"
  let ?stations = "Some [''A'' \<mapsto> \<lparr> StationLocation.gpslati = 0, StationLocation.gpslong = 0 \<rparr>, ''B'' \<mapsto> \<lparr> StationLocation.gpslati = 1, StationLocation.gpslong = 0 \<rparr>]"
  have sw: "shouldSwapPolylines ?detail ?stations [(1, 0), (1, 1)] [(0, 0), (0, 1)]"
    by (simp add: shouldSwapPolylines_def collectStop_def sampleCoordinates_def MAX_SAMPLE_STOPS_def
        calculateMeanSquaredError_def getSquaredDistanceToPolyline_def snapToPolyline_def
        snapStartIdx_def snapEndIdx_def optSegmentHint_def snapScan_def snapStep_def
        SWAP_RATIO_SQ_def Let_def)
  from shouldSwapPolylines_swapped_labels [OF sw] sw show ?thesis by simp
qed

section \<open>Properties of the cache manager\<close>

lemma wellFormed_newRuntime: "wellFormed (newRuntime n)"
  by (simp add: wellFormed_def newRuntime_def newCacheManager_def)

lemma oldest_in_entries:
  "fold (\<lambda>cur oldest. if snd cur < snd oldest then cur else oldest) entries (entry :: string \<times> int)
     \<in> set (entry # entries)"
proof (induction entries arbitrary: entry)
  case Nil
  show ?case by simp
next
  case (Cons e entries)
  show ?case using Cons.IH [of "if snd e < snd entry then e else entry"] by auto
qed

lemma evictLRU_result:
  assumes "accessTimes cm \<noteq> []"
  shows "\<exists>oldestKey \<in> dom (map_of (accessTimes cm)).
           (evictLRU cm :: 'e failure + 'v CacheManager) =
             Inr (cm\<lparr> cache := AList.delete oldestKey (cache cm),
                      accessTimes := AList.delete oldestKey (accessTimes cm),
                      pendingRequests := AList.delete oldestKey (pendingRequests cm) \<rparr>)"
proof -
  from assms obtain entry entries where e: "accessTimes cm = entry # entries"
    by (cases "accessTimes cm") auto
  let ?o = "fold (\<lambda>cur oldest. if snd cur < snd oldest then cur else oldest) entries entry"
  have "?o \<in> set (accessTimes cm)" using oldest_in_entries [of entries entry] e by simp
  then have "fst ?o \<in> dom (map_of (accessTimes cm))"
    by (simp add: dom_map_of_conv_image_fst)
  then show ?thesis
    by (intro bexI [of _ "fst ?o"]) (simp_all add: evictLRU_def e Let_def)
qed

lemma cacheSet_props:
  assumes doms: "dom (map_of (accessTimes cm)) = dom (map_of (cache cm))"
    and ok: "(cacheSet cm key val now :: 'e failure + 'v CacheManager) = Inr cm'"
  shows "maxSize cm' = maxSize cm \<and>
         map_of (cache cm') key = Some val \<and>
         dom (map_of (accessTimes cm')) = dom (map_of (cache cm')) \<and>
         (\<forall>k. map_of (cache cm) k = None \<longrightarrow>
              map_of (pendingRequests cm') k = map_of (pendingRequests cm) k) \<and>
         (\<forall>k q. map_of (pendingRequests cm') k = Some q \<longrightarrow>
              map_of (pendingRequests cm) k = Some q) \<and>
         (\<forall>k. k \<noteq> key \<and> map_of (cache cm) k = None \<longrightarrow> map_of (cache cm') k = None)"
proof (cases "int (length (cache cm)) \<ge> maxSize cm \<and> \<not> has cm key")
  case False
  then have "(cacheSet cm key val now :: 'e failure + 'v CacheManager) =
      Inr (cm\<lparr> cache := AList.update key val (cache cm),
               accessTimes := AList.update key now (accessTimes cm) \<rparr>)"
    by (auto simp add: cacheSet_def)
  with ok have "cm' = cm\<lparr> cache := AList.update key val (cache cm),
               accessTimes := AList.update key now (accessTimes cm) \<rparr>"
    by simp
  then show ?thesis using doms
    by (auto simp add: update_conv' dom_def)
next
  case True
  then have ev: "(cacheSet cm key val now :: 'e failure + 'v CacheManager) =
      (case (evictLRU cm :: 'e failure + 'v CacheManager) of
         Inl err \<Rightarrow> Inl err
       | Inr c \<Rightarrow> Inr (c\<lparr> cache := AList.update key val (cache c),
                          accessTimes := AList.update key now (accessTimes c) \<rparr>))"
    by (simp add: cacheSet_def)
  have "accessTimes cm \<noteq> []"
  proof
    assume "accessTimes cm = []"
    then have "(evictLRU cm :: 'e failure + 'v CacheManager) = Inl ReduceOfEmptyArray"
      by (simp add: evictLRU_def)
    with ev ok show False by simp
  qed
  from evictLRU_result [OF this]
  obtain oldestKey where o: "oldestKey \<in> dom (map_of (accessTimes cm))"
    "(evictLRU cm :: 'e failure + 'v CacheManager) =
       Inr (cm\<lparr> cache := AList.delete oldestKey (cache cm),
                accessTimes := AList.delete oldestKey (accessTimes cm),
                pendingRequests := AList.delete oldestKey (pendingRequests cm) \<rparr>)"
    by blast
  have c: "map_of (cache cm) oldestKey \<noteq> None" using o(1) doms by auto
  have "cm' = cm\<lparr> cache := AList.update key val (AList.delete oldestKey (cache cm)),
               accessTimes := AList.update key now (AList.delete oldestKey (accessTimes cm)),
               pendingRequests := AList.delete oldestKey (pendingRequests cm) \<rparr>"
    using ev ok by (simp add: o(2))
  then show ?thesis using doms c
    by (auto simp add: update_conv' delete_conv' dom_def split: if_splits)
qed

lemma cacheSet_succeeds:
  assumes pos: "0 < maxSize cm"
    and doms: "dom (map_of (accessTimes cm)) = dom (map_of (cache cm))"
  shows "\<exists>cm'. (cacheSet cm key val now :: 'e failure + 'v CacheManager) = Inr cm'"
proof (cases "int (length (cache cm)) \<ge> maxSize cm \<and> \<not> has cm key")
  case False
  then show ?thesis by (auto simp add: cacheSet_def)
next
  case True
  then have "cache cm \<noteq> []" using pos by auto
  then have "dom (map_of (cache cm)) \<noteq> {}"
    by (cases "cache cm") auto
  with doms have "dom (map_of (accessTimes cm)) \<noteq> {}" by metis
  then have "accessTimes cm \<noteq> []" by auto
  from evictLRU_result [OF this]
  obtain oldestKey where
    "(evictLRU cm :: 'e failure + 'v CacheManager) =
       Inr (cm\<lparr> cache := AList.delete oldestKey (cache cm),
                accessTimes := AList.delete oldestKey (accessTimes cm),
                pendingRequests := AList.delete oldestKey (pendingRequests cm) \<rparr>)"
    by blast
  then show ?thesis using True by (simp add: cacheSet_def)
qed

lemma wellFormedI:
  assumes "dom (map_of (accessTimes (manager rt))) = dom (map_of (cache (manager rt)))"
    and "\<And>key p. map_of (pendingRequests (manager rt)) key = Some p \<Longrightarrow>
           p < length (promises rt) \<and> promises rt ! p = (key, Pending) \<and>
           map_of (cache (manager rt)) key = None"
    and "\<And>p key. p < length (promises rt) \<Longrightarrow> promises rt ! p = (key, Pending) \<Longrightarrow>
           map_of (pendingRequests (manager rt)) key = Some p"
  shows "wellFormed rt"
  unfolding wellFormed_def using assms by blast

lemma wellFormed_doms:
  "wellFormed rt \<Longrightarrow>
   dom (map_of (accessTimes (manager rt))) = dom (map_of (cache (manager rt)))"
  unfolding wellFormed_def by blast

lemma wellFormed_pending:
  "wellFormed rt \<Longrightarrow> map_of (pendingRequests (manager rt)) key = Some p \<Longrightarrow>
   p < length (promises rt) \<and> promises rt ! p = (key, Pending) \<and>
   map_of (cache (manager rt)) key = None"
  unfolding wellFormed_def by blast

lemma wellFormed_promise:
  "wellFormed rt \<Longrightarrow> p < length (promises rt) \<Longrightarrow> promises rt ! p = (key, Pending) \<Longrightarrow>
   map_of (pendingRequests (manager rt)) key = Some p"
  unfolding wellFormed_def by blast

lemma getOrFetch_cached:
  "map_of (cache (manager rt)) key = Some v \<Longrightarrow>
   getOrFetch rt key fetchFn now =
     (Cached v,
      rt\<lparr> manager := (manager rt)
             \<lparr> accessTimes := AList.update key now (accessTimes (manager rt)) \<rparr> \<rparr>)"
  by (simp add: getOrFetch_def)

lemma getOrFetch_pending:
  "map_of (cache (manager rt)) key = None \<Longrightarrow>
   map_of (pendingRequests (manager rt)) key = Some p \<Longrightarrow>
   getOrFetch rt key fetchFn now = (Awaiting p, rt)"
  by (simp add: getOrFetch_def)

lemma getOrFetch_start:
  "map_of (cache (manager rt)) key = None \<Longrightarrow>
   map_of (pendingRequests (manager rt)) key = None \<Longrightarrow>
   getOrFetch rt key fetchFn now =
     (Awaiting (length (promises rt)),
      rt\<lparr> invoked := invoked rt @ [fetchFn],
          promises := promises rt @ [(key, Pending)],
          manager := (manager rt)
             \<lparr> pendingRequests :=
                 AList.update key (length (promises rt)) (pendingRequests (manager rt)) \<rparr> \<rparr>)"
  by (simp add: getOrFetch_def Let_def)

lemma wellFormed_getOrFetch:
  assumes wf: "wellFormed rt"
  shows "wellFormed (snd (getOrFetch rt key fetchFn now))"
proof (cases "map_of (cache (manager rt)) key")
  case (Some v)
  define rt' where "rt' = snd (getOrFetch rt key fetchFn now)"
  have f: "promises rt' = promises rt" "cache (manager rt') = cache (manager rt)"
    "pendingRequests (manager rt') = pendingRequests (manager rt)"
    "maxSize (manager rt') = maxSize (manager rt)"
    "accessTimes (manager rt') = AList.update key now (accessTimes (manager rt))"
    by (simp_all add: rt'_def getOrFetch_cached [OF Some])
  have "key \<in> dom (map_of (cache (manager rt)))" using Some by auto
  then have d: "dom (map_of (accessTimes (manager rt'))) = dom (map_of (cache (manager rt')))"
    using wellFormed_doms [OF wf] by (auto simp add: f update_conv')
  have "wellFormed rt'"
  proof (rule wellFormedI)
    show "dom (map_of (accessTimes (manager rt'))) = dom (map_of (cache (manager rt')))" by (rule d)
    show "p < length (promises rt') \<and> promises rt' ! p = (k, Pending) \<and>
           map_of (cache (manager rt')) k = None"
      if "map_of (pendingRequests (manager rt')) k = Some p" for k p
      using wellFormed_pending [OF wf, of k p] that by (simp add: f)
    show "map_of (pendingRequests (manager rt')) k = Some p"
      if "p < length (promises rt')" "promises rt' ! p = (k, Pending)" for p k
      using wellFormed_promise [OF wf, of p k] that by (simp add: f)
  qed
  then show ?thesis by (simp add: rt'_def)
next
  case None
  show ?thesis
  proof (cases "map_of (pendingRequests (manager rt)) key")
    case (Some p)
    then show ?thesis using wf by (simp add: getOrFetch_pending [OF None Some])
  next
    case pNone: None
    define rt' where "rt' = snd (getOrFetch rt key fetchFn now)"
    have f: "promises rt' = promises rt @ [(key, Pending)]"
      "cache (manager rt') = cache (manager rt)"
      "pendingRequests (manager rt') =
         AList.update key (length (promises rt)) (pendingRequests (manager rt))"
      "maxSize (manager rt') = maxSize (manager rt)"
      "accessTimes (manager rt') = accessTimes (manager rt)"
      by (simp_all add: rt'_def getOrFetch_start [OF None pNone])
    have "wellFormed rt'"
    proof (rule wellFormedI)
      show "dom (map_of (accessTimes (manager rt'))) = dom (map_of (cache (manager rt')))"
        using wellFormed_doms [OF wf] by (simp add: f)
      show "q < length (promises rt') \<and> promises rt' ! q = (k, Pending) \<and>
             map_of (cache (manager rt')) k = None"
        if "map_of (pendingRequests (manager rt')) k = Some q" for k q
      proof (cases "k = key")
        case True
        then have "q = length (promises rt)" using that by (simp add: f update_conv')
        then show ?thesis using True None by (simp add: f)
      next
        case False
        then have "map_of (pendingRequests (manager rt)) k = Some q"
          using that by (simp add: f update_conv')
        from wellFormed_pending [OF wf this] show ?thesis by (simp add: f nth_append)
      qed
      show "map_of (pendingRequests (manager rt')) k = Some q"
        if "q < length (promises rt')" "promises rt' ! q = (k, Pending)" for q k
      proof (cases "q < length (promises rt)")
        case True
        then have "promises rt ! q = (k, Pending)" using that by (simp add: f nth_append)
        from wellFormed_promise [OF wf True this]
        have old: "map_of (pendingRequests (manager rt)) k = Some q" .
        then have "k \<noteq> key" using pNone by auto
        then show ?thesis using old by (simp add: f update_conv')
      next
        case False
        then have q: "q = length (promises rt)" using that by (simp add: f)
        then have "k = key" using that by (simp add: f)
        then show ?thesis using q by (simp add: f update_conv')
      qed
    qed
    then show ?thesis by (simp add: rt'_def)
  qed
qed


lemma settle_noop:
  "\<not> (p < length (promises rt) \<and> snd (promises rt ! p) = Pending) \<Longrightarrow>
   settle rt p outcome now = rt"
  by (auto simp add: settle_def)

lemma settle_reject:
  assumes "p < length (promises rt)" "promises rt ! p = (key, Pending)"
  shows "settle rt p (Inl reason) now =
     rt\<lparr> manager := (manager rt)
            \<lparr> pendingRequests := AList.delete key (pendingRequests (manager rt)) \<rparr>,
         promises := (promises rt)[p := (key, Rejected (ProducerFailure reason))] \<rparr>"
  using assms by (simp add: settle_def Let_def)

lemma settle_fulfil:
  fixes rt :: "('v, 'e, 'p) Runtime"
  assumes "p < length (promises rt)" "promises rt ! p = (key, Pending)"
    and "cacheSet (manager rt) key data now = (Inr cm :: 'e failure + 'v CacheManager)"
  shows "settle rt p (Inr data) now =
     rt\<lparr> manager := cm\<lparr> pendingRequests := AList.delete key (pendingRequests cm) \<rparr>,
         promises := (promises rt)[p := (key, Fulfilled data)] \<rparr>"
  using assms by (simp add: settle_def Let_def)

lemma settle_fulfil_throws:
  fixes rt :: "('v, 'e, 'p) Runtime"
  assumes "p < length (promises rt)" "promises rt ! p = (key, Pending)"
    and "cacheSet (manager rt) key data now = (Inl err :: 'e failure + 'v CacheManager)"
  shows "settle rt p (Inr data) now =
     rt\<lparr> manager := (manager rt)
            \<lparr> pendingRequests := AList.delete key (pendingRequests (manager rt)) \<rparr>,
         promises := (promises rt)[p := (key, Rejected err)] \<rparr>"
  using assms by (simp add: settle_def Let_def)

lemma wellFormed_settle_fields:
  assumes wf: "wellFormed rt"
    and p: "p < length (promises rt)" "promises rt ! p = (key, Pending)"
    and pr: "promises rt' = (promises rt)[p := (key, st)]" "st \<noteq> Pending"
    and pe: "pendingRequests (manager rt') = AList.delete key pend"
    and sub: "\<And>k q. map_of pend k = Some q \<Longrightarrow> map_of (pendingRequests (manager rt)) k = Some q"
    and keep: "\<And>k. map_of (cache (manager rt)) k = None \<Longrightarrow>
                 map_of pend k = map_of (pendingRequests (manager rt)) k"
    and ca: "\<And>k. k \<noteq> key \<Longrightarrow> map_of (cache (manager rt)) k = None \<Longrightarrow>
                 map_of (cache (manager rt')) k = None"
    and doms: "dom (map_of (accessTimes (manager rt'))) = dom (map_of (cache (manager rt')))"
  shows "wellFormed rt'"
proof (rule wellFormedI)
  have pk: "map_of (pendingRequests (manager rt)) key = Some p"
    by (rule wellFormed_promise [OF wf p])
  show "dom (map_of (accessTimes (manager rt'))) = dom (map_of (cache (manager rt')))" by (rule doms)
  show "q < length (promises rt') \<and> promises rt' ! q = (k, Pending) \<and>
         map_of (cache (manager rt')) k = None"
    if "map_of (pendingRequests (manager rt')) k = Some q" for k q
  proof -
    have k: "k \<noteq> key" and "map_of pend k = Some q"
      using that by (auto simp add: pe delete_conv' split: if_splits)
    then have old: "map_of (pendingRequests (manager rt)) k = Some q" using sub by blast
    from wellFormed_pending [OF wf old]
    have o: "q < length (promises rt)" "promises rt ! q = (k, Pending)"
      "map_of (cache (manager rt)) k = None" by blast+
    have "q \<noteq> p" using o(2) p(2) k by auto
    then show ?thesis using o k ca by (simp add: pr)
  qed
  show "map_of (pendingRequests (manager rt')) k = Some q"
    if "q < length (promises rt')" "promises rt' ! q = (k, Pending)" for q k
  proof -
    have qp: "q \<noteq> p" using that pr p(1) by auto
    then have o: "q < length (promises rt)" "promises rt ! q = (k, Pending)"
      using that by (simp_all add: pr)
    from wellFormed_promise [OF wf o]
    have old: "map_of (pendingRequests (manager rt)) k = Some q" .
    then have k: "k \<noteq> key" using pk qp by auto
    have "map_of (cache (manager rt)) k = None" using wellFormed_pending [OF wf old] by blast
    then have "map_of pend k = Some q" using keep old by simp
    then show ?thesis using k by (simp add: pe delete_conv')
  qed
qed



lemma wellFormed_settle_rejected:
  fixes rt :: "('v, 'e, 'p) Runtime"
  assumes wf: "wellFormed rt"
    and p: "p < length (promises rt)" "promises rt ! p = (key, Pending)"
  shows "wellFormed (rt\<lparr> manager := (manager rt)
            \<lparr> pendingRequests := AList.delete key (pendingRequests (manager rt)) \<rparr>,
         promises := (promises rt)[p := (key, Rejected err)] \<rparr>)"
proof -
  define rt' where "rt' = rt\<lparr> manager := (manager rt)
            \<lparr> pendingRequests := AList.delete key (pendingRequests (manager rt)) \<rparr>,
         promises := (promises rt)[p := (key, Rejected err)] \<rparr>"
  have f: "promises rt' = (promises rt)[p := (key, Rejected err)]"
    "pendingRequests (manager rt') = AList.delete key (pendingRequests (manager rt))"
    "cache (manager rt') = cache (manager rt)"
    "accessTimes (manager rt') = accessTimes (manager rt)"
    by (simp_all add: rt'_def)
  have "wellFormed rt'"
    using wf p f(1) _ f(2)
  proof (rule wellFormed_settle_fields)
    show "Rejected err \<noteq> Pending" by simp
    show "dom (map_of (accessTimes (manager rt'))) = dom (map_of (cache (manager rt')))"
      using wellFormed_doms [OF wf] by (simp add: f)
    show "map_of (cache (manager rt')) k = None"
      if "k \<noteq> key" "map_of (cache (manager rt)) k = None" for k
      using that by (simp add: f)
  qed simp_all
  then show ?thesis by (simp add: rt'_def)
qed

lemma wellFormed_settle:
  fixes rt :: "('v, 'e, 'p) Runtime"
  assumes wf: "wellFormed rt"
  shows "wellFormed (settle rt p outcome now)"
proof (cases "p < length (promises rt) \<and> snd (promises rt ! p) = Pending")
  case False
  then show ?thesis using wf by (simp add: settle_noop)
next
  case True
  then obtain key where p: "p < length (promises rt)" "promises rt ! p = (key, Pending)"
    by (cases "promises rt ! p") auto
  show ?thesis
  proof (cases outcome)
    case (Inl reason)
    show ?thesis
      unfolding Inl settle_reject [OF p] by (rule wellFormed_settle_rejected [OF wf p])
  next
    case (Inr data)
    show ?thesis
    proof (cases "cacheSet (manager rt) key data now :: 'e failure + 'v CacheManager")
      case (Inl err)
      show ?thesis
        unfolding Inr settle_fulfil_throws [OF p Inl] by (rule wellFormed_settle_rejected [OF wf p])
    next
      case cs: (Inr cm)
      from cacheSet_props [OF wellFormed_doms [OF wf] cs]
      have cm: "dom (map_of (accessTimes cm)) = dom (map_of (cache cm))"
        and keep: "\<forall>k. map_of (cache (manager rt)) k = None \<longrightarrow>
           map_of (pendingRequests cm) k = map_of (pendingRequests (manager rt)) k"
        and sub: "\<forall>k q. map_of (pendingRequests cm) k = Some q \<longrightarrow>
           map_of (pendingRequests (manager rt)) k = Some q"
        and ca: "\<forall>k. k \<noteq> key \<and> map_of (cache (manager rt)) k = None \<longrightarrow> map_of (cache cm) k = None"
        by blast+
      define rt' where "rt' = settle rt p (Inr data) now"
      have f: "promises rt' = (promises rt)[p := (key, Fulfilled data)]"
        "pendingRequests (manager rt') = AList.delete key (pendingRequests cm)"
        "cache (manager rt') = cache cm"
        "accessTimes (manager rt') = accessTimes cm"
        by (simp_all add: rt'_def settle_fulfil [OF p cs])
      have "wellFormed rt'"
        using wf p f(1) _ f(2)
      proof (rule wellFormed_settle_fields)
        show "Fulfilled data \<noteq> Pending" by simp
        show "dom (map_of (accessTimes (manager rt'))) = dom (map_of (cache (manager rt')))"
          by (simp add: f cm)
        show "map_of (cache (manager rt')) k = None"
          if "k \<noteq> key" "map_of (cache (manager rt)) k = None" for k
          using that ca by (simp add: f)
        show "map_of (pendingRequests (manager rt)) k = Some q"
          if "map_of (pendingRequests cm) k = Some q" for k q
          using that sub by blast
        show "map_of (pendingRequests cm) k = map_of (pendingRequests (manager rt)) k"
          if "map_of (cache (manager rt)) k = None" for k
          using that keep by blast
      qed
      then show ?thesis by (simp add: rt'_def Inr)
    qed
  qed
qed

lemma wellFormed_step: "wellFormed rt \<Longrightarrow> wellFormed (step rt ev)"
  by (cases ev) (simp_all add: wellFormed_getOrFetch wellFormed_settle)

lemma run_Nil: "run rt [] = rt"
  by (simp add: run_def)

lemma run_Cons: "run rt (ev # evs) = run (step rt ev) evs"
  by (simp add: run_def)

lemma wellFormed_run: "wellFormed rt \<Longrightarrow> wellFormed (run rt evs)"
  by (induction evs arbitrary: rt) (simp_all add: run_Nil run_Cons wellFormed_step)


lemma pending_kept_step:
  fixes rt :: "('v, 'e, 'p) Runtime"
  assumes wf: "wellFormed rt"
    and pend: "map_of (pendingRequests (manager rt)) key = Some p"
    and other: "\<forall>outcome t. ev \<noteq> Settle p outcome t"
  shows "map_of (pendingRequests (manager (step rt ev))) key = Some p"
proof (cases ev)
  case (CallGetOrFetch k fetchFn now)
  show ?thesis
  proof (cases "map_of (cache (manager rt)) k")
    case (Some v)
    then show ?thesis using pend by (simp add: CallGetOrFetch getOrFetch_cached)
  next
    case None
    show ?thesis
    proof (cases "map_of (pendingRequests (manager rt)) k")
      case (Some q)
      then show ?thesis using pend None by (simp add: CallGetOrFetch getOrFetch_pending)
    next
      case pNone: None
      then have "k \<noteq> key" using pend by auto
      then show ?thesis
        using pend by (simp add: CallGetOrFetch getOrFetch_start [OF None pNone] update_conv')
    qed
  qed
next
  case (Settle q outcome now)
  then have qp: "q \<noteq> p" using other by auto
  show ?thesis
  proof (cases "q < length (promises rt) \<and> snd (promises rt ! q) = Pending")
    case False
    then show ?thesis using pend by (simp add: Settle settle_noop)
  next
    case True
    then obtain k where q: "q < length (promises rt)" "promises rt ! q = (k, Pending)"
      by (cases "promises rt ! q") auto
    have "map_of (pendingRequests (manager rt)) k = Some q"
      by (rule wellFormed_promise [OF wf q])
    then have k: "k \<noteq> key" using pend qp by auto
    show ?thesis
    proof (cases outcome)
      case (Inl reason)
      show ?thesis using pend k
        by (simp add: Settle Inl settle_reject [OF q] delete_conv')
    next
      case (Inr data)
      show ?thesis
      proof (cases "cacheSet (manager rt) k data now :: 'e failure + 'v CacheManager")
        case (Inl err)
        show ?thesis using pend k
          by (simp add: Settle Inr settle_fulfil_throws [OF q Inl] delete_conv')
      next
        case cs: (Inr cm)
        from cacheSet_props [OF wellFormed_doms [OF wf] cs]
        have keep: "\<forall>k'. map_of (cache (manager rt)) k' = None \<longrightarrow>
             map_of (pendingRequests cm) k' = map_of (pendingRequests (manager rt)) k'"
          by blast
        have "map_of (cache (manager rt)) key = None"
          using wellFormed_pending [OF wf pend] by blast
        then have "map_of (pendingRequests cm) key = Some p" using keep pend by simp
        then show ?thesis using k
          by (simp add: Settle Inr settle_fulfil [OF q cs] delete_conv')
      qed
    qed
  qed
qed

lemma pending_kept_run:
  fixes rt :: "('v, 'e, 'p) Runtime"
  assumes "wellFormed rt"
    and "map_of (pendingRequests (manager rt)) key = Some p"
    and "\<forall>ev \<in> set evs. \<forall>outcome t. ev \<noteq> Settle p outcome t"
  shows "map_of (pendingRequests (manager (run rt evs))) key = Some p"
  using assms
proof (induction evs arbitrary: rt)
  case Nil
  then show ?case by (simp add: run_Nil)
next
  case (Cons ev evs)
  have "wellFormed (step rt ev)" using Cons.prems(1) by (rule wellFormed_step)
  moreover have "map_of (pendingRequests (manager (step rt ev))) key = Some p"
    using Cons.prems by (intro pending_kept_step) simp_all
  ultimately show ?case using Cons.IH [of "step rt ev"] Cons.prems(3) by (simp add: run_Cons)
qed

lemma still_pending_state:
  fixes history evs :: "('v, 'e, 'p) event list"
  assumes pend: "map_of (pendingRequests (manager (run (newRuntime n) history))) key = Some p"
    and still: "\<forall>ev \<in> set evs. \<forall>outcome t. ev \<noteq> Settle p outcome t"
  shows "wellFormed (run (run (newRuntime n) history) evs) \<and>
         map_of (pendingRequests (manager (run (run (newRuntime n) history) evs))) key = Some p"
proof -
  have wf0: "wellFormed (run (newRuntime n :: ('v, 'e, 'p) Runtime) history)"
    by (intro wellFormed_run wellFormed_newRuntime)
  then have "wellFormed (run (run (newRuntime n) history) evs)" by (rule wellFormed_run)
  moreover have "map_of (pendingRequests (manager (run (run (newRuntime n) history) evs))) key = Some p"
    using wf0 pend still by (rule pending_kept_run)
  ultimately show ?thesis by blast
qed

lemma maxSize_getOrFetch:
  "maxSize (manager (snd (getOrFetch rt key fetchFn now))) = maxSize (manager rt)"
  by (simp add: getOrFetch_def Let_def split: option.splits)

lemma maxSize_cacheSet:
  "(cacheSet cm key val now :: 'e failure + 'v CacheManager) = Inr cm' \<Longrightarrow>
   maxSize cm' = maxSize cm"
  by (auto simp add: cacheSet_def evictLRU_def Let_def split: if_splits sum.splits list.splits)

lemma maxSize_settle:
  fixes rt :: "('v, 'e, 'p) Runtime"
  shows "maxSize (manager (settle rt p outcome now)) = maxSize (manager rt)"
proof (cases "p < length (promises rt) \<and> snd (promises rt ! p) = Pending")
  case False
  then show ?thesis by (simp add: settle_noop)
next
  case True
  then obtain key where p: "p < length (promises rt)" "promises rt ! p = (key, Pending)"
    by (cases "promises rt ! p") auto
  show ?thesis
  proof (cases outcome)
    case (Inl reason)
    show ?thesis by (simp add: Inl settle_reject [OF p])
  next
    case (Inr data)
    show ?thesis
    proof (cases "cacheSet (manager rt) key data now :: 'e failure + 'v CacheManager")
      case (Inl err)
      show ?thesis by (simp add: Inr settle_fulfil_throws [OF p Inl])
    next
      case cs: (Inr cm)
      show ?thesis by (simp add: Inr settle_fulfil [OF p cs] maxSize_cacheSet [OF cs])
    qed
  qed
qed

lemma maxSize_run: "maxSize (manager (run rt evs)) = maxSize (manager rt)"
proof (induction evs arbitrary: rt)
  case Nil
  show ?case by (simp add: run_Nil)
next
  case (Cons ev evs)
  show ?case
    by (cases ev) (simp_all add: run_Cons Cons.IH maxSize_getOrFetch maxSize_settle)
qed

text \<open>
  Claim C8.  Take a cache manager in any state reached by calls of \<open>getOrFetch\<close> and
  settlements, in which a fetch for \<open>key\<close> is pending with promise \<open>p\<close>.  As long as \<open>p\<close>
  has not settled, whatever other calls and settlements happen, a call
  \<open>getOrFetch(key, fetchFn)\<close> is bound to the same promise \<open>p\<close> and leaves the runtime as it
  was, so \<open>fetchFn\<close> is not invoked.  Once the fetch resolves with \<open>data\<close>, in a cache
  manager of positive capacity, promise \<open>p\<close> is fulfilled with it, and a later \<open>getOrFetch\<close>
  for the key returns the cached \<open>data\<close>, invokes no producer and leaves the value cached.
\<close>

theorem getOrFetch_deduplicates_and_memoizes:
  fixes history evs :: "('v, 'e, 'p) event list"
  assumes pend: "map_of (pendingRequests (manager (run (newRuntime n) history))) key = Some p"
    and still: "\<forall>ev \<in> set evs. \<forall>outcome t. ev \<noteq> Settle p outcome t"
    and cap: "0 < n"
  shows "let rt = run (run (newRuntime n) history) evs;
             rt' = settle rt p (Inr data) t';
             r = getOrFetch rt' key fetchFn' now'
         in getOrFetch rt key fetchFn now = (Awaiting p, rt) \<and>
            promises rt' ! p = (key, Fulfilled data) \<and>
            fst r = Cached data \<and>
            invoked (snd r) = invoked rt \<and>
            map_of (cache (manager (snd r))) key = Some data"
proof -
  define rt where "rt = run (run (newRuntime n) history) evs"
  have wf: "wellFormed rt" and pk: "map_of (pendingRequests (manager rt)) key = Some p"
    using still_pending_state [OF pend still] by (simp_all add: rt_def)
  from wellFormed_pending [OF wf pk]
  have p: "p < length (promises rt)" "promises rt ! p = (key, Pending)"
    and nc: "map_of (cache (manager rt)) key = None" by blast+
  have a: "getOrFetch rt key fetchFn now = (Awaiting p, rt)"
    by (rule getOrFetch_pending [OF nc pk])
  have "maxSize (manager rt) = n"
    by (simp add: rt_def maxSize_run newRuntime_def newCacheManager_def)
  then have pos: "0 < maxSize (manager rt)" using cap by simp
  from cacheSet_succeeds [OF pos wellFormed_doms [OF wf], of key data t']
  obtain cm where cm: "cacheSet (manager rt) key data t' = (Inr cm :: 'e failure + 'v CacheManager)"
    by blast
  from cacheSet_props [OF wellFormed_doms [OF wf] cm]
  have hit: "map_of (cache cm) key = Some data" by blast
  define rt' where "rt' = settle rt p (Inr data) t'"
  have f: "promises rt' = (promises rt)[p := (key, Fulfilled data)]"
    "cache (manager rt') = cache cm" "invoked rt' = invoked rt"
    by (simp_all add: rt'_def settle_fulfil [OF p cm])
  have c: "map_of (cache (manager rt')) key = Some data" by (simp add: f hit)
  have "promises rt' ! p = (key, Fulfilled data)" using p(1) by (simp add: f)
  moreover have "fst (getOrFetch rt' key fetchFn' now') = Cached data"
    by (simp add: getOrFetch_cached [OF c])
  moreover have "invoked (snd (getOrFetch rt' key fetchFn' now')) = invoked rt"
    by (simp add: getOrFetch_cached [OF c] f)
  moreover have "map_of (cache (manager (snd (getOrFetch rt' key fetchFn' now')))) key = Some data"
    by (simp add: getOrFetch_cached [OF c] c)
  ultimately show ?thesis using a by (simp add: Let_def rt_def rt'_def)
qed

text \<open>
  Claim C9.  Take a cache manager in any state reached by calls of \<open>getOrFetch\<close> and
  settlements, in which a fetch for \<open>key\<close> is pending with promise \<open>p\<close>, and let any
  calls and settlements other than that of \<open>p\<close> follow.  Every caller of \<open>getOrFetch\<close>
  for the key is bound to promise \<open>p\<close>.  If the producer rejects with \<open>reason\<close>, promise \<open>p\<close> is rejected with
  that reason, the cache and the access times are unchanged, no value is cached for the
  key, the pending entry of the key is removed, and the next \<open>getOrFetch\<close> for the key
  creates a new promise and invokes its producer.
\<close>

theorem getOrFetch_rejection_not_cached:
  fixes history evs :: "('v, 'e, 'p) event list"
  assumes pend: "map_of (pendingRequests (manager (run (newRuntime n) history))) key = Some p"
    and still: "\<forall>ev \<in> set evs. \<forall>outcome t. ev \<noteq> Settle p outcome t"
  shows "let rt = run (run (newRuntime n) history) evs;
             rt' = settle rt p (Inl reason) t';
             r = getOrFetch rt' key fetchFn' now'
         in fst (getOrFetch rt key fetchFn now) = Awaiting p \<and>
            promises rt' ! p = (key, Rejected (ProducerFailure reason)) \<and>
            cache (manager rt') = cache (manager rt) \<and>
            accessTimes (manager rt') = accessTimes (manager rt) \<and>
            map_of (cache (manager rt')) key = None \<and>
            map_of (pendingRequests (manager rt')) key = None \<and>
            fst r = Awaiting (length (promises rt')) \<and>
            invoked (snd r) = invoked rt @ [fetchFn']"
proof -
  define rt where "rt = run (run (newRuntime n) history) evs"
  have wf: "wellFormed rt" and pk: "map_of (pendingRequests (manager rt)) key = Some p"
    using still_pending_state [OF pend still] by (simp_all add: rt_def)
  from wellFormed_pending [OF wf pk]
  have p: "p < length (promises rt)" "promises rt ! p = (key, Pending)"
    and nc: "map_of (cache (manager rt)) key = None" by blast+
  have a: "fst (getOrFetch rt key fetchFn now) = Awaiting p"
    by (simp add: getOrFetch_pending [OF nc pk])
  define rt' where "rt' = settle rt p (Inl reason) t'"
  have f: "promises rt' = (promises rt)[p := (key, Rejected (ProducerFailure reason))]"
    "cache (manager rt') = cache (manager rt)"
    "accessTimes (manager rt') = accessTimes (manager rt)"
    "pendingRequests (manager rt') = AList.delete key (pendingRequests (manager rt))"
    "invoked rt' = invoked rt"
    by (simp_all add: rt'_def settle_reject [OF p])
  have c: "map_of (cache (manager rt')) key = None" by (simp add: f nc)
  have d: "map_of (pendingRequests (manager rt')) key = None" by (simp add: f delete_conv')
  have "promises rt' ! p = (key, Rejected (ProducerFailure reason))" using p(1) by (simp add: f)
  moreover have "fst (getOrFetch rt' key fetchFn' now') = Awaiting (length (promises rt'))"
    by (simp add: getOrFetch_start [OF c d])
  moreover have "invoked (snd (getOrFetch rt' key fetchFn' now')) = invoked rt @ [fetchFn']"
    by (simp add: getOrFetch_start [OF c d] f)
  ultimately show ?thesis using a c d f(2,3) by (simp add: Let_def rt_def rt'_def)
qed


text \<open>
  An example run: a first call for \<open>k\<close> starts a fetch (promise \<open>0\<close>); then a second call
  for \<open>k\<close> and a call for another key \<open>j\<close> follow while the fetch is pending.
\<close>

lemma example_history:
  "run (newRuntime 100) [CallGetOrFetch ''k'' ''first'' 0] =
     (\<lparr> manager = \<lparr> cache = [], pendingRequests = [(''k'', 0)], accessTimes = [], maxSize = 100 \<rparr>,
        promises = [(''k'', Pending)], invoked = [''first''] \<rparr> :: (nat, string, string) Runtime)"
  by (simp add: run_def getOrFetch_def newRuntime_def newCacheManager_def)

lemma example_events:
  "run (run (newRuntime 100) [CallGetOrFetch ''k'' ''first'' 0])
       [CallGetOrFetch ''k'' ''second'' 1, CallGetOrFetch ''j'' ''other'' 2] =
     (\<lparr> manager = \<lparr> cache = [], pendingRequests = [(''k'', 0), (''j'', 1)], accessTimes = [],
                     maxSize = 100 \<rparr>,
        promises = [(''k'', Pending), (''j'', Pending)], invoked = [''first'', ''other''] \<rparr>
      :: (nat, string, string) Runtime)"
  unfolding example_history by (simp add: run_def getOrFetch_def)

text \<open>
  In the example run only the producers of the first call and of the call for \<open>j\<close> have
  been invoked; a third call for \<open>k\<close> joins promise \<open>0\<close>, and after the fetch resolved
  with \<open>42\<close> a fourth call returns the cached \<open>42\<close>.
\<close>

theorem getOrFetch_deduplicates_and_memoizes_witness:
  "(0::int) < 100 \<and>
   map_of (pendingRequests (manager
     (run (newRuntime 100 :: (nat, string, string) Runtime) [CallGetOrFetch ''k'' ''first'' 0]))) ''k'' = Some 0 \<and>
   invoked (run (run (newRuntime 100 :: (nat, string, string) Runtime) [CallGetOrFetch ''k'' ''first'' 0])
              [CallGetOrFetch ''k'' ''second'' 1, CallGetOrFetch ''j'' ''other'' 2]) = [''first'', ''other''] \<and>
   (let rt = run (run (newRuntime 100 :: (nat, string, string) Runtime) [CallGetOrFetch ''k'' ''first'' 0])
               [CallGetOrFetch ''k'' ''second'' 1, CallGetOrFetch ''j'' ''other'' 2];
        rt' = settle rt 0 (Inr 42) 5;
        r = getOrFetch rt' ''k'' ''fourth'' 7
    in getOrFetch rt ''k'' ''third'' 3 = (Awaiting 0, rt) \<and>
       promises rt' ! 0 = (''k'', Fulfilled 42) \<and>
       fst r = Cached 42 \<and>
       invoked (snd r) = invoked rt \<and>
       map_of (cache (manager (snd r))) ''k'' = Some 42)"
proof -
  have pend: "map_of (pendingRequests (manager
     (run (newRuntime 100 :: (nat, string, string) Runtime) [CallGetOrFetch ''k'' ''first'' 0]))) ''k'' = Some 0"
    by (simp add: example_history)
  have still: "\<forall>ev \<in> set [CallGetOrFetch ''k'' ''second'' 1, CallGetOrFetch ''j'' ''other'' 2 :: (nat, string, string) event].
      \<forall>outcome t. ev \<noteq> Settle 0 outcome t"
    by simp
  have inv: "invoked (run (run (newRuntime 100 :: (nat, string, string) Runtime) [CallGetOrFetch ''k'' ''first'' 0])
              [CallGetOrFetch ''k'' ''second'' 1, CallGetOrFetch ''j'' ''other'' 2]) = [''first'', ''other'']"
    by (simp add: example_events)
  have cap: "(0::int) < 100" by simp
  from getOrFetch_deduplicates_and_memoizes [OF pend still cap, of 42 5 "''fourth''" 7 "''third''" 3] pend still inv
  show ?thesis by simp
qed

text \<open>
  In the example run the fetch fails with \<open>offline\<close>: promise \<open>0\<close> is rejected, nothing is
  cached, and the fourth call invokes its producer.
\<close>

theorem getOrFetch_rejection_not_cached_witness:
  "map_of (pendingRequests (manager
     (run (newRuntime 100 :: (nat, string, string) Runtime) [CallGetOrFetch ''k'' ''first'' 0]))) ''k'' = Some 0 \<and>
   (let rt = run (run (newRuntime 100 :: (nat, string, string) Runtime) [CallGetOrFetch ''k'' ''first'' 0])
               [CallGetOrFetch ''k'' ''second'' 1, CallGetOrFetch ''j'' ''other'' 2];
        rt' = settle rt 0 (Inl ''offline'') 5;
        r = getOrFetch rt' ''k'' ''fourth'' 7
    in fst (getOrFetch rt ''k'' ''third'' 3) = Awaiting 0 \<and>
       promises rt' ! 0 = (''k'', Rejected (ProducerFailure ''offline'')) \<and>
       cache (manager rt') = cache (manager rt) \<and>
       accessTimes (manager rt') = accessTimes (manager rt) \<and>
       map_of (cache (manager rt')) ''k'' = None \<and>
       map_of (pendingRequests (manager rt')) ''k'' = None \<and>
       fst r = Awaiting (length (promises rt')) \<and>
       invoked (snd r) = invoked rt @ [''fourth''])"
proof -
  have pend: "map_of (pendingRequests (manager
     (run (newRuntime 100 :: (nat, string, string) Runtime) [CallGetOrFetch ''k'' ''first'' 0]))) ''k'' = Some 0"
    by (simp add: example_history)
  have still: "\<forall>ev \<in> set [CallGetOrFetch ''k'' ''second'' 1, CallGetOrFetch ''j'' ''other'' 2 :: (nat, string, string) event].
      \<forall>outcome t. ev \<noteq> Settle 0 outcome t"
    by simp
  from getOrFetch_rejection_not_cached [OF pend still, of "''offline''" 5 "''fourth''" 7 "''third''" 3] pend still
  show ?thesis by simp
qed

end
